theory Spec2Isabelle
  imports Complex_Main
begin

section \<open>JavaScript numbers and strings\<close>

text \<open>
  The notes editor of Alairy (\<^verbatim>\<open>src/components/NotesPanel.tsx\<close>) computes with
  JavaScript numbers, strings and the DOM.  A JavaScript number is modelled as a rational
  or \<open>NaN\<close>; every finite double is a rational with a finite decimal expansion, and
  the two infinities are left out.  Where the result of an arithmetic operation is the
  value that the program passes on (the frame number of the video player, the seek target
  of a frame stamp) it is rounded to the nearest double, as IEEE 754 arithmetic does;
  where only the floor of a quotient is used (\<^verbatim>\<open>formatTime\<close>) the quotient is taken
  exactly.  Strings are character lists.
\<close>

datatype jsnum = NaN | Num rat

text \<open>\<^verbatim>\<open>Math.floor(x)\<close>.\<close>

fun js_floor :: "jsnum \<Rightarrow> jsnum" where
  "js_floor NaN = NaN"
| "js_floor (Num q) = Num (of_int \<lfloor>q\<rfloor>)"

text \<open>The doubles.  A positive double is \<open>m * 2^e\<close> for integers \<open>m\<close> and \<open>e\<close> with
  \<open>2^52 \<le> m < 2^53\<close> and \<open>-1074 \<le> e \<le> 971\<close> (normal), or with \<open>m < 2^52\<close> and
  \<open>e = -1074\<close> (subnormal).  \<open>bit_length n\<close> is the number of binary digits of a
  positive integer, and \<open>binade q\<close> is the exponent \<open>b\<close> with \<open>2^b \<le> q < 2^(b+1)\<close> of
  a positive rational, found from the bit lengths of its numerator and denominator.
  \<open>to_double q\<close> is the double nearest to \<open>q\<close>, a tie going to the even mantissa: the
  rounding that every arithmetic operation of JavaScript applies to its exact result.  A
  result that rounds to \<open>2^1024\<close> or beyond, which JavaScript turns into an infinity,
  is outside the model.\<close>

function bit_length :: "int \<Rightarrow> nat" where
  "bit_length n = (if n \<le> 0 then 0 else Suc (bit_length (n div 2)))"
  by auto

termination bit_length
  by (relation "measure nat") auto

declare bit_length.simps [simp del]

definition pow2 :: "int \<Rightarrow> rat" where
  "pow2 k = (if 0 \<le> k then 2 ^ nat k else 1 / 2 ^ nat (- k))"

definition binade :: "rat \<Rightarrow> int" where
  "binade q =
     (case quotient_of q of
        (n, d) \<Rightarrow>
          (let k = int (bit_length n) - int (bit_length d)
           in if pow2 k \<le> q then k else k - 1))"

definition round_half_even :: "rat \<Rightarrow> int" where
  "round_half_even x =
     (let f = \<lfloor>x\<rfloor>; r = x - of_int f
      in if r < 1 / 2 then f else if 1 / 2 < r then f + 1 else if even f then f else f + 1)"

definition to_double :: "rat \<Rightarrow> rat" where
  "to_double q =
     (if q = 0 then 0
      else (let e = max (binade \<bar>q\<bar> - 52) (- 1074)
            in sgn q * of_int (round_half_even (\<bar>q\<bar> / pow2 e)) * pow2 e))"

definition is_double :: "rat \<Rightarrow> bool" where
  "is_double q = (to_double q = q \<and> (q = 0 \<or> binade \<bar>q\<bar> < 1024))"

fun js_double :: "jsnum \<Rightarrow> jsnum" where
  "js_double NaN = NaN"
| "js_double (Num q) = Num (to_double q)"

text \<open>\<^verbatim>\<open>x / c\<close> for a literal \<open>c\<close>, before the rounding; every divisor in the source is
  a non-zero literal (3600, 60, 30).  \<^verbatim>\<open>formatTime\<close> only takes the floor of the quotient
  and uses it as it is; \<^verbatim>\<open>handleStampClick\<close> passes the quotient on, rounded.\<close>

fun js_div :: "jsnum \<Rightarrow> rat \<Rightarrow> jsnum" where
  "js_div NaN c = NaN"
| "js_div (Num q) c = Num (q / c)"

text \<open>\<^verbatim>\<open>x * c\<close> for a literal \<open>c\<close>: the double nearest to the exact product.\<close>

fun js_mul :: "jsnum \<Rightarrow> rat \<Rightarrow> jsnum" where
  "js_mul NaN c = NaN"
| "js_mul (Num q) c = Num (to_double (q * c))"

text \<open>\<^verbatim>\<open>x % c\<close>: the remainder has the sign of the dividend, the quotient is truncated
  towards zero.\<close>

definition js_truncate :: "rat \<Rightarrow> int" where
  "js_truncate q = (if q < 0 then \<lceil>q\<rceil> else \<lfloor>q\<rfloor>)"

fun js_rem :: "jsnum \<Rightarrow> rat \<Rightarrow> jsnum" where
  "js_rem NaN c = NaN"
| "js_rem (Num q) c = Num (q - c * of_int (js_truncate (q / c)))"

text \<open>\<^verbatim>\<open>Number.prototype.toString()\<close>: the decimal numeral of the integer part, then,
  when the number is not an integer, a point and the digits of the fraction.  The digits
  of the fraction are produced one at a time until the remainder is zero; the
  denominator bounds their number for every rational with a finite decimal expansion.
  Exponent notation (used by JavaScript from \<open>1e21\<close> on and below \<open>1e-6\<close>) is left
  out.\<close>

definition digit_char :: "nat \<Rightarrow> char" where
  "digit_char d = ''0123456789'' ! d"

fun nat_toString :: "nat \<Rightarrow> string" where
  "nat_toString n =
     (if n < 10 then [digit_char n] else nat_toString (n div 10) @ [digit_char (n mod 10)])"

declare nat_toString.simps [simp del]

fun frac_digits :: "nat \<Rightarrow> rat \<Rightarrow> string" where
  "frac_digits 0 r = []"
| "frac_digits (Suc n) r =
     (if r = 0 then []
      else digit_char (nat \<lfloor>r * 10\<rfloor>) # frac_digits n (r * 10 - of_int \<lfloor>r * 10\<rfloor>))"

definition unsigned_toString :: "rat \<Rightarrow> string" where
  "unsigned_toString q =
     (let r = q - of_int \<lfloor>q\<rfloor> in
      nat_toString (nat \<lfloor>q\<rfloor>) @
      (if r = 0 then [] else CHR ''.'' # frac_digits (nat (snd (quotient_of q))) r))"

fun number_toString :: "jsnum \<Rightarrow> string" where
  "number_toString NaN = ''NaN''"
| "number_toString (Num q) =
     (if q < 0 then CHR ''-'' # unsigned_toString (- q) else unsigned_toString q)"

text \<open>\<^verbatim>\<open>s.padStart(n, c)\<close> for a one-character pad string.\<close>

definition padStart :: "nat \<Rightarrow> char \<Rightarrow> string \<Rightarrow> string" where
  "padStart n c s = replicate (n - length s) c @ s"

text \<open>\<^verbatim>\<open>parseFloat(s)\<close>: leading white space is skipped, then the longest prefix of
  the form sign, digits, point, digits is read, and what follows is ignored; \<open>NaN\<close>
  when there is no digit.  Exponents and \<^verbatim>\<open>Infinity\<close> are left out, as in
  \<open>number_toString\<close>.\<close>

definition is_digit :: "char \<Rightarrow> bool" where
  "is_digit c = (c \<in> set ''0123456789'')"

definition is_whitespace :: "char \<Rightarrow> bool" where
  "is_whitespace c = (c \<in> {CHR '' '', CHR 0x09, CHR 0x0A, CHR 0x0B, CHR 0x0C, CHR 0x0D})"

definition digit_val :: "char \<Rightarrow> nat" where
  "digit_val c = of_char c - 48"

definition digits_val :: "string \<Rightarrow> nat" where
  "digits_val ds = foldl (\<lambda>acc c. 10 * acc + digit_val c) 0 ds"

definition frac_val :: "string \<Rightarrow> rat" where
  "frac_val ds = foldr (\<lambda>c acc. (of_nat (digit_val c) + acc) / 10) ds 0"

definition parseFloat :: "string \<Rightarrow> jsnum" where
  "parseFloat s =
     (let t = dropWhile is_whitespace s;
          neg = (t \<noteq> [] \<and> hd t = CHR ''-'');
          u = (if t \<noteq> [] \<and> (hd t = CHR ''-'' \<or> hd t = CHR ''+'') then tl t else t);
          ip = takeWhile is_digit u;
          rest = dropWhile is_digit u;
          fp = (case rest of [] \<Rightarrow> [] | c # r \<Rightarrow> if c = CHR ''.'' then takeWhile is_digit r else [])
      in if ip = [] \<and> fp = [] then NaN
         else Num ((if neg then - 1 else 1) * (of_nat (digits_val ip) + frac_val fp)))"

text \<open>Truthiness of a value that is a string, \<^verbatim>\<open>null\<close> or \<^verbatim>\<open>undefined\<close>: only a
  non-empty string is truthy.\<close>

fun truthy :: "string option \<Rightarrow> bool" where
  "truthy None = False"
| "truthy (Some s) = (s \<noteq> [])"

text \<open>\<^verbatim>\<open>v || d\<close> for such a value.\<close>

fun or_else :: "string option \<Rightarrow> string \<Rightarrow> string" where
  "or_else None d = d"
| "or_else (Some s) d = (if s = [] then d else s)"

section \<open>The stamp model\<close>

text \<open>\<^verbatim>\<open>formatTime\<close> (NotesPanel.tsx, lines 39-44).\<close>

definition formatTime :: "jsnum \<Rightarrow> string" where
  "formatTime seconds =
     (let h = js_floor (js_div seconds 3600);
          m = js_floor (js_div (js_rem seconds 3600) 60);
          s = js_floor (js_rem seconds 60)
      in number_toString h @ '':'' @ padStart 2 (CHR ''0'') (number_toString m) @ '':'' @
         padStart 2 (CHR ''0'') (number_toString s))"

text \<open>The format \<open>H:MM:SS\<close> in the words of the specification: for a whole number
  of seconds, the hours as a plain decimal numeral, the minutes and the seconds of the
  last hour as two digits each.\<close>

definition two_digits :: "nat \<Rightarrow> string" where
  "two_digits k = [digit_char (k div 10), digit_char (k mod 10)]"

definition spec_HMMSS :: "nat \<Rightarrow> string" where
  "spec_HMMSS n =
     nat_toString (n div 3600) @ '':'' @ two_digits (n mod 3600 div 60) @ '':'' @
     two_digits (n mod 60)"

section \<open>The document\<close>

text \<open>\<^verbatim>\<open>interface Stamp\<close> (lines 13-18).  The field \<^verbatim>\<open>type\<close> is declared
  \<^verbatim>\<open>'time' | 'frame'\<close>, but \<^verbatim>\<open>reattachStampListeners\<close> fills it from a data attribute
  through an unchecked cast, so at run time it is any string or \<^verbatim>\<open>undefined\<close>.\<close>

record Stamp =
  stampId :: string
  stampType :: "string option"
  stampValue :: jsnum
  stampLabel :: string

text \<open>A click listener of a stamp button is the closure
  \<^verbatim>\<open>(e) => { e.preventDefault(); handleStampClick(stamp); }\<close>: it holds the stamp it was
  created for and the \<^verbatim>\<open>handleStampClick\<close> of that render, which in turn holds whether
  the \<^verbatim>\<open>seekToTime\<close> prop was given.\<close>

datatype listener = ClickListener bool Stamp

text \<open>A DOM node below the editor: a text node, or an element with its tag name, its
  attributes in the order they were set, its click listeners and its child nodes.\<close>

datatype node =
    TextNode string
  | Element string "(string \<times> string) list" "listener list" "node list"

text \<open>The markup string that \<^verbatim>\<open>innerHTML\<close> yields, that \<^verbatim>\<open>localStorage\<close> keeps and that
  assigning to \<^verbatim>\<open>innerHTML\<close> parses is represented by the forest it parses to: listeners
  are not part of it, adjacent text nodes read back as one and an empty text node leaves
  no trace.  The empty string is the empty forest.  \<open>text_before a m\<close> is the
  markup of the text \<open>a\<close> followed by the markup \<open>m\<close>.\<close>

type_synonym markup = "node list"

fun text_before :: "string \<Rightarrow> markup \<Rightarrow> markup" where
  "text_before a (TextNode b # rest) = TextNode (a @ b) # rest"
| "text_before a rest = (if a = [] then rest else TextNode a # rest)"

fun innerHTML :: "node list \<Rightarrow> markup" where
  "innerHTML [] = []"
| "innerHTML (TextNode a # rest) = text_before a (innerHTML rest)"
| "innerHTML (Element tag attrs ls kids # rest) =
     Element tag attrs [] (innerHTML kids) # innerHTML rest"

text \<open>\<^verbatim>\<open>node.cloneNode(true)\<close> copies attributes and descendants, not listeners.\<close>

fun cloneNode :: "node \<Rightarrow> node" where
  "cloneNode (TextNode t) = TextNode t"
| "cloneNode (Element tag attrs ls kids) = Element tag attrs [] (map cloneNode kids)"

text \<open>\<^verbatim>\<open>node.textContent\<close>; for the detached \<^verbatim>\<open>div\<close> that \<^verbatim>\<open>exportNotes\<close> builds,
  which is not rendered, \<^verbatim>\<open>innerText\<close> is the same string.\<close>

fun textContent :: "node \<Rightarrow> string" where
  "textContent (TextNode t) = t"
| "textContent (Element tag attrs ls kids) = concat (map textContent kids)"

text \<open>The editor is the content-editable \<^verbatim>\<open>div\<close> of lines 419-426; a node below it is
  addressed by the child indices leading to it, the empty path being the \<^verbatim>\<open>div\<close> itself.\<close>

definition editor_div :: "node list \<Rightarrow> node" where
  "editor_div kids = Element ''div'' [(''contenteditable'', '''')] [] kids"

fun node_at :: "node \<Rightarrow> nat list \<Rightarrow> node option" where
  "node_at n [] = Some n"
| "node_at (TextNode t) (i # p) = None"
| "node_at (Element tag attrs ls kids) (i # p) =
     (if i < length kids then node_at (kids ! i) p else None)"

text \<open>\<^verbatim>\<open>node.remove()\<close> for the node at a path below the editor.\<close>

fun remove_at :: "node list \<Rightarrow> nat list \<Rightarrow> node list" where
  "remove_at kids [] = kids"
| "remove_at kids [i] = take i kids @ drop (Suc i) kids"
| "remove_at kids (i # p) =
     (if i < length kids
      then (case kids ! i of
              TextNode t \<Rightarrow> kids
            | Element tag attrs ls cs \<Rightarrow> kids[i := Element tag attrs ls (remove_at cs p)])
      else kids)"

text \<open>\<^verbatim>\<open>(n as HTMLElement).dataset?.stampId\<close> is truthy: \<open>n\<close> is an element whose
  attribute \<^verbatim>\<open>data-stamp-id\<close> is a non-empty string.\<close>

fun has_stampId :: "node \<Rightarrow> bool" where
  "has_stampId (TextNode t) = False"
| "has_stampId (Element tag attrs ls kids) = truthy (map_of attrs ''data-stamp-id'')"

text \<open>The selector \<^verbatim>\<open>button[data-stamp-id]\<close>.\<close>

definition is_stamp_button :: "string \<Rightarrow> (string \<times> string) list \<Rightarrow> bool" where
  "is_stamp_button tag attrs = (tag = ''button'' \<and> map_of attrs ''data-stamp-id'' \<noteq> None)"

text \<open>\<^verbatim>\<open>querySelectorAll('button[data-stamp-id]')\<close>: the matching elements in document
  order.\<close>

fun querySelectorAll_stamps :: "node \<Rightarrow> node list" where
  "querySelectorAll_stamps (TextNode t) = []"
| "querySelectorAll_stamps (Element tag attrs ls kids) =
     (if is_stamp_button tag attrs then [Element tag attrs ls kids] else []) @
     concat (map querySelectorAll_stamps kids)"

text \<open>A boundary point of a range lies in a node below the editor or somewhere else in
  the page; the model keeps no tree for the rest of the page.\<close>

datatype container = InEditor "nat list" | Outside

record dom_range =
  startContainer :: container
  startOffset :: nat
  endContainer :: container
  endOffset :: nat

text \<open>The collapsed range at one boundary point.\<close>

definition caret :: "container \<Rightarrow> nat \<Rightarrow> dom_range" where
  "caret c i = \<lparr>startContainer = c, startOffset = i, endContainer = c, endOffset = i\<rparr>"

definition collapsed :: "dom_range \<Rightarrow> bool" where
  "collapsed r = (startContainer r = endContainer r \<and> startOffset r = endOffset r)"

text \<open>\<^verbatim>\<open>editorRef.current.contains(range.commonAncestorContainer)\<close>: the common ancestor
  lies in the editor exactly when both boundary points do.\<close>

definition editor_contains :: "dom_range \<Rightarrow> bool" where
  "editor_contains r = (startContainer r \<noteq> Outside \<and> endContainer r \<noteq> Outside)"

text \<open>\<^verbatim>\<open>range.deleteContents(); range.insertNode(n)\<close> is the browser's algorithm, not
  code of the repository: it is a parameter of the model.  Given the editor's children, a
  range inside the editor and the new node, it returns the new children and where the
  node now sits (the path of its parent and its index there).\<close>

type_synonym range_insert = "node list \<Rightarrow> dom_range \<Rightarrow> node \<Rightarrow> node list \<times> nat list \<times> nat"

datatype error = IndexSizeError

text \<open>\<^verbatim>\<open>selection?.getRangeAt(0)\<close>: \<^verbatim>\<open>undefined\<close> when \<^verbatim>\<open>window.getSelection()\<close> is
  \<^verbatim>\<open>null\<close>; on a selection without ranges \<^verbatim>\<open>getRangeAt\<close> throws a \<^verbatim>\<open>DOMException\<close>
  named \<^verbatim>\<open>IndexSizeError\<close>.\<close>

fun getRangeAt0 :: "dom_range list option \<Rightarrow> error + dom_range option" where
  "getRangeAt0 None = Inr None"
| "getRangeAt0 (Some []) = Inl IndexSizeError"
| "getRangeAt0 (Some (r # rs)) = Inr (Some r)"

section \<open>The component and its environment\<close>

text \<open>\<^verbatim>\<open>interface NotesPanelProps\<close> (lines 6-11).  An accessor prop is represented by the
  number it returns when called; \<^verbatim>\<open>seekToTime\<close> by whether it is given, its calls being
  recorded in the state.\<close>

record props =
  videoFilename :: "string option"
  getCurrentTime :: "jsnum option"
  getCurrentFrame :: "jsnum option"
  seekToTime :: bool

datatype toast = ToastError string | ToastSuccess string

text \<open>A timer callback: \<^verbatim>\<open>() => { autoSave(); }\<close> holds the \<^verbatim>\<open>autoSave\<close> of the render
  that scheduled it, and through it that render's \<^verbatim>\<open>videoFilename\<close>;
  \<^verbatim>\<open>() => reattachStampListeners()\<close> holds that render's \<^verbatim>\<open>handleStampClick\<close>.\<close>

datatype callback = AutoSave "string option" | Reattach bool

datatype storage_op = SetItem string markup | RemoveItem string

text \<open>The state: the component's \<^verbatim>\<open>useState\<close> and \<^verbatim>\<open>useRef\<close> cells (lines 30-33),
  and what it reads and writes of the browser: the clock of \<^verbatim>\<open>Date.now()\<close> in
  milliseconds, \<^verbatim>\<open>window.getSelection()\<close> (\<open>None\<close> for \<^verbatim>\<open>null\<close>, else its ranges),
  \<^verbatim>\<open>localStorage\<close>, the pending timers (identifier, due time, callback), and the traces
  of the toasts shown, the seeks requested, the files offered for download and the writes
  to \<^verbatim>\<open>localStorage\<close> with their times.  \<open>editorRef\<close> holds the children of the
  editor \<^verbatim>\<open>div\<close>, \<open>None\<close> while the \<^verbatim>\<open>div\<close> is not mounted.\<close>

record state =
  hasChanges :: bool
  lastBackspaceTime :: int
  editorRef :: "node list option"
  autoSaveTimeoutRef :: "nat option"
  now :: int
  selection :: "dom_range list option"
  localStorage :: "string \<Rightarrow> markup option"
  timers :: "(nat \<times> int \<times> callback) list"
  lastTimerId :: nat
  toasts :: "toast list"
  seeks :: "jsnum list"
  downloads :: "(string \<times> string) list"
  storageLog :: "(int \<times> storage_op) list"

definition initial_state :: "int \<Rightarrow> state" where
  "initial_state t =
     \<lparr>hasChanges = False, lastBackspaceTime = 0, editorRef = None, autoSaveTimeoutRef = None,
      now = t, selection = Some [], localStorage = (\<lambda>k. None), timers = [], lastTimerId = 0,
      toasts = [], seeks = [], downloads = [], storageLog = []\<rparr>"

definition toast_error :: "string \<Rightarrow> state \<Rightarrow> state" where
  "toast_error msg s = s\<lparr>toasts := toasts s @ [ToastError msg]\<rparr>"

definition toast_success :: "string \<Rightarrow> state \<Rightarrow> state" where
  "toast_success msg s = s\<lparr>toasts := toasts s @ [ToastSuccess msg]\<rparr>"

text \<open>\<^verbatim>\<open>setTimeout\<close> returns a fresh positive identifier, which is truthy;
  \<^verbatim>\<open>clearTimeout\<close> of a timer that has fired or was cleared does nothing.\<close>

definition setTimeout :: "callback \<Rightarrow> int \<Rightarrow> state \<Rightarrow> nat \<times> state" where
  "setTimeout cb delay s =
     (let i = Suc (lastTimerId s)
      in (i, s\<lparr>timers := timers s @ [(i, now s + delay, cb)], lastTimerId := i\<rparr>))"

definition clearTimeout :: "nat \<Rightarrow> state \<Rightarrow> state" where
  "clearTimeout i s = s\<lparr>timers := filter (\<lambda>t. fst t \<noteq> i) (timers s)\<rparr>"

definition storageKey :: "string \<Rightarrow> string" where
  "storageKey filename = ''vidnotes_'' @ filename"

definition setItem :: "string \<Rightarrow> markup \<Rightarrow> state \<Rightarrow> state" where
  "setItem k v s =
     s\<lparr>localStorage := (localStorage s)(k := Some v),
       storageLog := storageLog s @ [(now s, SetItem k v)]\<rparr>"

definition removeItem :: "string \<Rightarrow> state \<Rightarrow> state" where
  "removeItem k s =
     s\<lparr>localStorage := (localStorage s)(k := None),
       storageLog := storageLog s @ [(now s, RemoveItem k)]\<rparr>"

section \<open>The operations of the notes panel\<close>

text \<open>\<^verbatim>\<open>handleStampClick\<close> (lines 46-59); the first argument is the captured
  \<^verbatim>\<open>seekToTime\<close>.\<close>

definition handleStampClick :: "bool \<Rightarrow> Stamp \<Rightarrow> state \<Rightarrow> state" where
  "handleStampClick seek stamp s =
     (if \<not> seek then toast_error ''Cannot navigate to timestamp'' s
      else if stampType stamp = Some ''time''
      then toast_success (''Jumped to '' @ formatTime (stampValue stamp))
             (s\<lparr>seeks := seeks s @ [stampValue stamp]\<rparr>)
      else toast_success (''Jumped to frame '' @ number_toString (stampValue stamp))
             (s\<lparr>seeks := seeks s @ [js_double (js_div (stampValue stamp) 30)]\<rparr>))"

text \<open>\<^verbatim>\<open>getCurrentVideoFrame\<close> (lines 512-526, the accessor that the video player
  installs on \<^verbatim>\<open>window\<close>): \<^verbatim>\<open>Math.floor(currentTime * 30)\<close>, the floor of the
  product of two doubles.\<close>

definition getCurrentVideoFrame :: "jsnum \<Rightarrow> jsnum" where
  "getCurrentVideoFrame currentTime = js_floor (js_mul currentTime 30)"

text \<open>A click on the node at a path runs its click listeners in order.\<close>

fun run_listener :: "listener \<Rightarrow> state \<Rightarrow> state" where
  "run_listener (ClickListener seek stamp) s = handleStampClick seek stamp s"

definition click :: "nat list \<Rightarrow> state \<Rightarrow> state" where
  "click p s =
     (case editorRef s of
        None \<Rightarrow> s
      | Some kids \<Rightarrow>
          (case node_at (editor_div kids) p of
             Some (Element tag attrs ls cs) \<Rightarrow> fold run_listener ls s
           | _ \<Rightarrow> s))"

text \<open>\<^verbatim>\<open>reattachStampListeners\<close> (lines 62-83).  The stamp read from the data
  attributes of a button is \<open>dataset_stamp\<close>; every button matching
  \<^verbatim>\<open>button[data-stamp-id]\<close> is replaced by a deep clone that carries one new listener.  A
  matching button inside another one is replaced inside the detached original only, so
  in the document it is the listener-free copy made by \<^verbatim>\<open>cloneNode\<close>.\<close>

definition dataset_stamp :: "(string \<times> string) list \<Rightarrow> Stamp" where
  "dataset_stamp attrs =
     \<lparr>stampId = or_else (map_of attrs ''data-stamp-id'') '''',
      stampType = map_of attrs ''data-stamp-type'',
      stampValue = parseFloat (or_else (map_of attrs ''data-stamp-value'') ''0''),
      stampLabel = or_else (map_of attrs ''data-stamp-label'') ''''\<rparr>"

fun reattach_node :: "bool \<Rightarrow> node \<Rightarrow> node" where
  "reattach_node seek (TextNode t) = TextNode t"
| "reattach_node seek (Element tag attrs ls kids) =
     (if is_stamp_button tag attrs
      then Element tag attrs [ClickListener seek (dataset_stamp attrs)] (map cloneNode kids)
      else Element tag attrs ls (map (reattach_node seek) kids))"

definition reattachStampListeners :: "bool \<Rightarrow> state \<Rightarrow> state" where
  "reattachStampListeners seek s =
     (case editorRef s of
        None \<Rightarrow> s
      | Some kids \<Rightarrow> s\<lparr>editorRef := Some (map (reattach_node seek) kids)\<rparr>)"

text \<open>The effect that loads the notes (lines 86-98), run when \<^verbatim>\<open>videoFilename\<close> changes.
  An absent record and an empty one both leave the editor empty.\<close>

definition loadNotes :: "props \<Rightarrow> state \<Rightarrow> state" where
  "loadNotes pr s =
     (case (videoFilename pr, editorRef s) of
        (Some filename, Some kids) \<Rightarrow>
          if filename = [] then s
          else (case localStorage s (storageKey filename) of
                  None \<Rightarrow> s\<lparr>editorRef := Some [], hasChanges := False\<rparr>
                | Some savedNotes \<Rightarrow>
                    if innerHTML savedNotes = []
                    then s\<lparr>editorRef := Some [], hasChanges := False\<rparr>
                    else (snd (setTimeout (Reattach (seekToTime pr)) 0
                                (s\<lparr>editorRef := Some (innerHTML savedNotes)\<rparr>)))
                           \<lparr>hasChanges := False\<rparr>)
      | _ \<Rightarrow> s)"

text \<open>The conditional JSX of lines 414-434: the editor \<^verbatim>\<open>div\<close> is mounted exactly while
  \<^verbatim>\<open>videoFilename\<close> is truthy, and a mounted \<^verbatim>\<open>div\<close> is kept when only the name
  changes.  Making a video active is this rendering followed by the effect.\<close>

definition render :: "props \<Rightarrow> state \<Rightarrow> state" where
  "render pr s =
     (if truthy (videoFilename pr)
      then (case editorRef s of None \<Rightarrow> s\<lparr>editorRef := Some []\<rparr> | Some kids \<Rightarrow> s)
      else s\<lparr>editorRef := None\<rparr>)"

definition activate :: "props \<Rightarrow> state \<Rightarrow> state" where
  "activate pr s = loadNotes pr (render pr s)"

text \<open>\<^verbatim>\<open>autoSave\<close> (lines 101-106); the argument is the \<^verbatim>\<open>videoFilename\<close> of the render
  in which this \<^verbatim>\<open>autoSave\<close> was created.  The editor is read when it runs.\<close>

definition autoSave :: "string option \<Rightarrow> state \<Rightarrow> state" where
  "autoSave captured s =
     (case (captured, editorRef s) of
        (Some filename, Some kids) \<Rightarrow>
          if filename = [] then s
          else (setItem (storageKey filename) (innerHTML kids) s)\<lparr>hasChanges := False\<rparr>
      | _ \<Rightarrow> s)"

text \<open>\<^verbatim>\<open>handleInput\<close> (lines 108-120).\<close>

definition handleInput :: "props \<Rightarrow> state \<Rightarrow> state" where
  "handleInput pr s =
     (let s1 = s\<lparr>hasChanges := True\<rparr>;
          s2 = (case autoSaveTimeoutRef s1 of None \<Rightarrow> s1 | Some i \<Rightarrow> clearTimeout i s1);
          (i, s3) = setTimeout (AutoSave (videoFilename pr)) 1000 s2
      in s3\<lparr>autoSaveTimeoutRef := Some i\<rparr>)"

text \<open>The cleanup of the effect of lines 123-129, run when the component unmounts.\<close>

definition cleanup :: "state \<Rightarrow> state" where
  "cleanup s = (case autoSaveTimeoutRef s of None \<Rightarrow> s | Some i \<Rightarrow> clearTimeout i s)"

text \<open>\<^verbatim>\<open>saveNotes\<close> (lines 131-140).\<close>

definition saveNotes :: "props \<Rightarrow> state \<Rightarrow> state" where
  "saveNotes pr s =
     (case (videoFilename pr, editorRef s) of
        (Some filename, Some kids) \<Rightarrow>
          if filename = [] then toast_error ''No video loaded'' s
          else toast_success ''Notes saved''
                 ((setItem (storageKey filename) (innerHTML kids) s)\<lparr>hasChanges := False\<rparr>)
      | _ \<Rightarrow> toast_error ''No video loaded'' s)"

text \<open>\<^verbatim>\<open>clearNotes\<close> (lines 142-151); the second argument is the answer to
  \<^verbatim>\<open>window.confirm\<close>.\<close>

definition clearNotes :: "props \<Rightarrow> bool \<Rightarrow> state \<Rightarrow> state" where
  "clearNotes pr confirmed s =
     (case (videoFilename pr, editorRef s) of
        (Some filename, Some kids) \<Rightarrow>
          if filename = [] then s
          else if confirmed
          then toast_success ''Notes deleted''
                 ((removeItem (storageKey filename) s)\<lparr>editorRef := Some [], hasChanges := False\<rparr>)
          else s
      | _ \<Rightarrow> s)"

text \<open>\<^verbatim>\<open>exportNotes\<close> (lines 153-197).  In the copy of the document every button
  matching \<^verbatim>\<open>button[data-stamp-id]\<close> is replaced by a text node; a matching button inside
  another one goes with it.  The regular expression \<^verbatim>\<open>/\.[^/.]+$/\<close> matches, leftmost
  first, a point followed up to the end of the string by one or more characters that are
  neither a slash nor a point.\<close>

definition stamp_export_text :: "(string \<times> string) list \<Rightarrow> string" where
  "stamp_export_text attrs =
     (let stampType = map_of attrs ''data-stamp-type'';
          stampValue = map_of attrs ''data-stamp-value''
      in if stampType = Some ''time'' \<and> truthy stampValue
         then ''['' @ formatTime (parseFloat (or_else stampValue '''')) @ '']''
         else if stampType = Some ''frame'' \<and> truthy stampValue
         then ''[Frame '' @ or_else stampValue '''' @ '']''
         else '''')"

fun export_node :: "node \<Rightarrow> node" where
  "export_node (TextNode t) = TextNode t"
| "export_node (Element tag attrs ls kids) =
     (if is_stamp_button tag attrs then TextNode (stamp_export_text attrs)
      else Element tag attrs ls (map export_node kids))"

fun strip_extension :: "string \<Rightarrow> string" where
  "strip_extension [] = []"
| "strip_extension (c # cs) =
     (if c = CHR ''.'' \<and> cs \<noteq> [] \<and> list_all (\<lambda>x. x \<noteq> CHR ''/'' \<and> x \<noteq> CHR ''.'') cs then []
      else c # strip_extension cs)"

definition newline :: char where
  "newline = CHR 0x0A"

definition exportNotes :: "props \<Rightarrow> state \<Rightarrow> state" where
  "exportNotes pr s =
     (case (videoFilename pr, editorRef s) of
        (Some filename, Some kids) \<Rightarrow>
          if filename = [] then toast_error ''No notes to export'' s
          else
            (let tempDiv = map export_node (innerHTML kids);
                 content = concat (map textContent tempDiv);
                 markdown = ''# Notes for '' @ filename @ [newline, newline] @ content;
                 download = strip_extension filename @ ''_notes.md''
             in toast_success ''Notes exported''
                  (s\<lparr>downloads := downloads s @ [(download, markdown)]\<rparr>))
      | _ \<Rightarrow> toast_error ''No notes to export'' s)"

text \<open>The stamp button built by \<^verbatim>\<open>insertStampButton\<close> (lines 246-269).\<close>

definition svg_attrs :: "(string \<times> string) list" where
  "svg_attrs =
     [(''xmlns'', ''http://www.w3.org/2000/svg''), (''width'', ''12''), (''height'', ''12''),
      (''viewBox'', ''0 0 24 24''), (''fill'', ''none''), (''stroke'', ''currentColor''),
      (''stroke-width'', ''2''), (''stroke-linecap'', ''round''), (''stroke-linejoin'', ''round'')]"

definition time_icon :: node where
  "time_icon =
     Element ''svg'' svg_attrs []
       [Element ''circle'' [(''cx'', ''12''), (''cy'', ''12''), (''r'', ''10'')] [] [],
        Element ''polyline'' [(''points'', ''12 6 12 12 16 14'')] [] []]"

definition frame_icon :: node where
  "frame_icon =
     Element ''svg'' svg_attrs []
       [Element ''line'' [(''x1'', ''22''), (''x2'', ''2''), (''y1'', ''12''), (''y2'', ''12'')] [] [],
        Element ''path''
          [(''d'', ''M5.45 5.11 2 12v6a2 2 0 0 0 2 2h16a2 2 0 0 0 2-2v-6l-3.45-6.89A2 2 0 0 0 16.76 4H7.24a2 2 0 0 0-1.79 1.11z'')]
          [] [],
        Element ''line'' [(''x1'', ''6''), (''x2'', ''6.01''), (''y1'', ''16''), (''y2'', ''16'')] [] [],
        Element ''line'' [(''x1'', ''10''), (''x2'', ''10.01''), (''y1'', ''16''), (''y2'', ''16'')] [] []]"

text \<open>\<^verbatim>\<open>String(v)\<close> for a string or \<^verbatim>\<open>undefined\<close>, as the \<^verbatim>\<open>dataset\<close> setter applies
  it.\<close>

fun js_String :: "string option \<Rightarrow> string" where
  "js_String None = ''undefined''"
| "js_String (Some v) = v"

definition stampButton :: "bool \<Rightarrow> Stamp \<Rightarrow> string \<Rightarrow> node" where
  "stampButton seek stamp displayText =
     Element ''button''
       [(''contenteditable'', ''false''),
        (''class'', ''inline-flex items-center gap-1 mx-0.5 text-xs font-semibold stamp-text hover:opacity-70 transition-opacity cursor-pointer''),
        (''data-stamp-id'', stampId stamp),
        (''data-stamp-type'', js_String (stampType stamp)),
        (''data-stamp-value'', number_toString (stampValue stamp)),
        (''data-stamp-label'', stampLabel stamp)]
       [ClickListener seek stamp]
       [Element ''span'' [] []
          [if stampType stamp = Some ''time'' then time_icon else frame_icon],
        Element ''span'' [(''contenteditable'', ''false'')] [] [TextNode displayText]]"

text \<open>\<^verbatim>\<open>insertStampButton\<close> (lines 240-292).  \<^verbatim>\<open>getRangeAt(0)\<close> comes before anything
  is changed, so when it throws the state is as it was.  The call
  \<^verbatim>\<open>editorRef.current.focus()\<close> is not modelled.\<close>

definition insertStampButton ::
  "range_insert \<Rightarrow> props \<Rightarrow> Stamp \<Rightarrow> string \<Rightarrow> state \<Rightarrow> error + state" where
  "insertStampButton ins pr stamp displayText s =
     (case editorRef s of
        None \<Rightarrow> Inr s
      | Some kids \<Rightarrow>
          (case getRangeAt0 (selection s) of
             Inl e \<Rightarrow> Inl e
           | Inr rng \<Rightarrow>
               (let button = stampButton (seekToTime pr) stamp displayText;
                    s1 = (case rng of
                            None \<Rightarrow> s\<lparr>editorRef := Some (kids @ [button])\<rparr>
                          | Some r \<Rightarrow>
                              if editor_contains r
                              then (case ins kids r button of
                                      (kids', parent, i) \<Rightarrow>
                                        s\<lparr>editorRef := Some kids',
                                          selection := Some [caret (InEditor parent) (Suc i)]\<rparr>)
                              else s\<lparr>editorRef := Some (kids @ [button])\<rparr>);
                    s2 = s1\<lparr>hasChanges := True\<rparr>;
                    s3 = (case autoSaveTimeoutRef s2 of None \<Rightarrow> s2 | Some i \<Rightarrow> clearTimeout i s2);
                    (i, s4) = setTimeout (AutoSave (videoFilename pr)) 500 s3
                in Inr (s4\<lparr>autoSaveTimeoutRef := Some i\<rparr>))))"

text \<open>\<^verbatim>\<open>insertTimestamp\<close> (lines 199-220) and \<^verbatim>\<open>insertFrameStamp\<close> (lines 222-238).  An
  exception of \<^verbatim>\<open>insertStampButton\<close> leaves the handler before its toast.\<close>

definition insertTimestamp :: "range_insert \<Rightarrow> props \<Rightarrow> state \<Rightarrow> error + state" where
  "insertTimestamp ins pr s =
     (case (getCurrentTime pr, editorRef s) of
        (Some time, Some kids) \<Rightarrow>
          if \<not> truthy (videoFilename pr) then Inr (toast_error ''Video player not ready'' s)
          else
            (let hours = js_floor (js_div time 3600);
                 minutes = js_floor (js_div (js_rem time 3600) 60);
                 seconds = js_floor (js_rem time 60);
                 timeStr = number_toString hours @ '':'' @
                   padStart 2 (CHR ''0'') (number_toString minutes) @ '':'' @
                   padStart 2 (CHR ''0'') (number_toString seconds);
                 stamp = \<lparr>stampId = ''time-'' @ number_toString (Num (of_int (now s))),
                          stampType = Some ''time'', stampValue = time,
                          stampLabel = ''Timestamp''\<rparr>
             in (case insertStampButton ins pr stamp timeStr s of
                   Inl e \<Rightarrow> Inl e
                 | Inr s' \<Rightarrow> Inr (toast_success ''Timestamp inserted'' s')))
      | _ \<Rightarrow> Inr (toast_error ''Video player not ready'' s))"

definition insertFrameStamp :: "range_insert \<Rightarrow> props \<Rightarrow> state \<Rightarrow> error + state" where
  "insertFrameStamp ins pr s =
     (case (getCurrentFrame pr, editorRef s) of
        (Some frame, Some kids) \<Rightarrow>
          if \<not> truthy (videoFilename pr) then Inr (toast_error ''Video player not ready'' s)
          else
            (let stamp = \<lparr>stampId = ''frame-'' @ number_toString (Num (of_int (now s))),
                          stampType = Some ''frame'', stampValue = frame,
                          stampLabel = ''Frame''\<rparr>
             in (case insertStampButton ins pr stamp (''F'' @ number_toString frame) s of
                   Inl e \<Rightarrow> Inl e
                 | Inr s' \<Rightarrow> Inr (toast_success ''Frame stamp inserted'' s')))
      | _ \<Rightarrow> Inr (toast_error ''Video player not ready'' s))"

text \<open>\<^verbatim>\<open>handleKeyDown\<close> (lines 294-344).  The result is the new state and whether
  \<^verbatim>\<open>e.preventDefault()\<close> was called.  \<open>press_at_stamp\<close> is the block the source has
  twice (lines 308-319 and 327-338), for the stamp at the given path.  A caret whose
  container is outside the editor, or at no node of the model, is at no stamp.\<close>

definition press_at_stamp :: "nat list \<Rightarrow> node list \<Rightarrow> state \<Rightarrow> state \<times> bool" where
  "press_at_stamp p kids s =
     (if now s - lastBackspaceTime s < 500
      then (toast_success ''Stamp deleted''
              (s\<lparr>editorRef := Some (remove_at kids p), hasChanges := True\<rparr>)
              \<lparr>lastBackspaceTime := 0\<rparr>, True)
      else (s\<lparr>lastBackspaceTime := now s\<rparr>, True))"

fun nextSibling :: "nat list \<Rightarrow> nat list" where
  "nextSibling [] = []"
| "nextSibling [i] = [Suc i]"
| "nextSibling (i # p) = i # nextSibling p"

definition handleKeyDown :: "string \<Rightarrow> state \<Rightarrow> state \<times> bool" where
  "handleKeyDown key s =
     (case editorRef s of
        None \<Rightarrow> (s, False)
      | Some kids \<Rightarrow>
          if key \<noteq> ''Backspace'' then (s, False)
          else (case selection s of
                  None \<Rightarrow> (s, False)
                | Some [] \<Rightarrow> (s, False)
                | Some (rng # rs) \<Rightarrow>
                    if \<not> collapsed rng then (s, False)
                    else
                      (let offset = startOffset rng;
                           node = (case startContainer rng of
                                     InEditor p \<Rightarrow> map_option (Pair p) (node_at (editor_div kids) p)
                                   | Outside \<Rightarrow> None)
                       in case node of
                            Some (p, TextNode t) \<Rightarrow>
                              if offset = length t \<and>
                                 (case node_at (editor_div kids) (nextSibling p) of
                                    None \<Rightarrow> False
                                  | Some sib \<Rightarrow> has_stampId sib)
                              then press_at_stamp (nextSibling p) kids s
                              else (s\<lparr>lastBackspaceTime := 0\<rparr>, False)
                          | Some (p, Element tag attrs ls cs) \<Rightarrow>
                              if 0 < offset \<and> offset - 1 < length cs \<and>
                                 has_stampId (cs ! (offset - 1))
                              then press_at_stamp (p @ [offset - 1]) kids s
                              else (s\<lparr>lastBackspaceTime := 0\<rparr>, False)
                          | None \<Rightarrow> (s\<lparr>lastBackspaceTime := 0\<rparr>, False))))"

section \<open>Timers\<close>

text \<open>The browser runs a pending timer once its time has come, the earliest first and,
  among equals, the one set first; the clock then reads at least the due time.\<close>

fun earliest :: "(nat \<times> int \<times> callback) list \<Rightarrow> (nat \<times> int \<times> callback) option" where
  "earliest [] = None"
| "earliest (t # ts) =
     (case earliest ts of
        None \<Rightarrow> Some t
      | Some u \<Rightarrow> if fst (snd u) < fst (snd t) then Some u else Some t)"

fun run_callback :: "callback \<Rightarrow> state \<Rightarrow> state" where
  "run_callback (AutoSave captured) s = autoSave captured s"
| "run_callback (Reattach seek) s = reattachStampListeners seek s"

definition fire :: "nat \<times> int \<times> callback \<Rightarrow> state \<Rightarrow> state" where
  "fire t s =
     run_callback (snd (snd t))
       (s\<lparr>timers := filter (\<lambda>u. fst u \<noteq> fst t) (timers s), now := max (now s) (fst (snd t))\<rparr>)"

definition due_timer :: "int \<Rightarrow> state \<Rightarrow> (nat \<times> int \<times> callback) option" where
  "due_timer T s =
     (case earliest (timers s) of
        None \<Rightarrow> None
      | Some t \<Rightarrow> if fst (snd t) \<le> T then Some t else None)"

text \<open>Letting time pass up to \<open>T\<close>: the timers due by then run in order, then the clock
  reads \<open>T\<close>.  No callback of the component sets a timer, so this ends.\<close>

function run_until :: "int \<Rightarrow> state \<Rightarrow> state" where
  "run_until T s =
     (case due_timer T s of
        None \<Rightarrow> s\<lparr>now := max (now s) T\<rparr>
      | Some t \<Rightarrow> run_until T (fire t s))"
  by pat_completeness auto
termination
proof (relation "measure (\<lambda>(T, s). length (timers s))")
  show "wf (measure (\<lambda>(T, s). length (timers s)))" by simp
next
  fix T :: int and s :: state and t :: "nat \<times> int \<times> callback"
  assume due: "due_timer T s = Some t"
  have mem: "earliest ts = Some u \<Longrightarrow> u \<in> set ts" for ts and u :: "nat \<times> int \<times> callback"
    by (induction ts arbitrary: u) (auto split: option.splits if_splits)
  have "t \<in> set (timers s)"
    using due mem[of "timers s" t] by (auto simp: due_timer_def split: option.splits if_splits)
  then have "length (filter (\<lambda>u. fst u \<noteq> fst t) (timers s)) < length (timers s)"
    by (intro length_filter_less[of t]) auto
  moreover have "timers (fire t s) = filter (\<lambda>u. fst u \<noteq> fst t) (timers s)"
    by (cases "snd (snd t)")
       (auto simp: fire_def autoSave_def setItem_def reattachStampListeners_def
             split: option.splits)
  ultimately show "((T, fire t s), (T, s)) \<in> measure (\<lambda>(T, s). length (timers s))"
    by simp
qed

declare run_until.simps [simp del]

section \<open>The vocabulary of the specification\<close>

text \<open>The document of the specification: text runs interleaved with stamp tokens.  A token
  is rendered as \<^verbatim>\<open>insertStampButton\<close> builds it, with the display text that
  \<^verbatim>\<open>insertTimestamp\<close> and \<^verbatim>\<open>insertFrameStamp\<close> pass: \<open>H:MM:SS\<close> or \<open>F<n>\<close>.\<close>

datatype segment = Run string | Token Stamp

definition display_text :: "Stamp \<Rightarrow> string" where
  "display_text st =
     (if stampType st = Some ''time'' then formatTime (stampValue st)
      else ''F'' @ number_toString (stampValue st))"

fun render_segment :: "bool \<Rightarrow> segment \<Rightarrow> node" where
  "render_segment seek (Run t) = TextNode t"
| "render_segment seek (Token st) = stampButton seek st (display_text st)"

fun tokens :: "segment list \<Rightarrow> Stamp list" where
  "tokens [] = []"
| "tokens (Run t # segs) = tokens segs"
| "tokens (Token st # segs) = st # tokens segs"

text \<open>The export bracket form of a stamp: \<open>[H:MM:SS]\<close> for a time stamp,
  \<open>[Frame <n>]\<close> for a frame stamp.\<close>

definition bracket_form :: "Stamp \<Rightarrow> string" where
  "bracket_form st =
     (if stampType st = Some ''time'' then ''['' @ formatTime (stampValue st) @ '']''
      else ''[Frame '' @ number_toString (stampValue st) @ '']'')"

fun segment_text :: "segment \<Rightarrow> string" where
  "segment_text (Run t) = t"
| "segment_text (Token st) = bracket_form st"

text \<open>A number with a finite decimal expansion, as every finite double is.\<close>

definition finite_decimal :: "rat \<Rightarrow> bool" where
  "finite_decimal q = (\<exists>k::nat. \<exists>m::int. q * 10 ^ k = of_int m)"

text \<open>A stamp as \<^verbatim>\<open>insertTimestamp\<close> and \<^verbatim>\<open>insertFrameStamp\<close> make them: of one of
  the two kinds, with a finite value.\<close>

definition creatable :: "Stamp \<Rightarrow> bool" where
  "creatable st =
     ((stampType st = Some ''time'' \<or> stampType st = Some ''frame'') \<and>
      (\<exists>q. stampValue st = Num q \<and> finite_decimal q))"

text \<open>What is observed of the stamps of a document: all elements matching
  \<^verbatim>\<open>button[data-stamp-id]\<close> in document order, and of each its attributes and its click
  listeners.\<close>

definition all_stamps :: "node list \<Rightarrow> node list" where
  "all_stamps doc = concat (map querySelectorAll_stamps doc)"

fun attributes_of :: "node \<Rightarrow> (string \<times> string) list" where
  "attributes_of (TextNode t) = []"
| "attributes_of (Element tag attrs ls kids) = attrs"

fun listeners_of :: "node \<Rightarrow> listener list" where
  "listeners_of (TextNode t) = []"
| "listeners_of (Element tag attrs ls kids) = ls"

text \<open>No stamp button lies inside another one.\<close>

fun no_nested :: "node \<Rightarrow> bool" where
  "no_nested (TextNode t) = True"
| "no_nested (Element tag attrs ls kids) =
     (if is_stamp_button tag attrs then concat (map querySelectorAll_stamps kids) = []
      else list_all no_nested kids)"

text \<open>The text of a node once every stamp button is replaced by its export text.\<close>

fun export_text :: "node \<Rightarrow> string" where
  "export_text (TextNode t) = t"
| "export_text (Element tag attrs ls kids) =
     (if is_stamp_button tag attrs then stamp_export_text attrs
      else concat (map export_text kids))"

text \<open>A reload of the page: the component starts afresh at the given clock reading,
  only \<^verbatim>\<open>localStorage\<close> is kept; then the video becomes active, and the deferred
  \<^verbatim>\<open>reattachStampListeners\<close> of the load runs.\<close>

definition reload :: "props \<Rightarrow> int \<Rightarrow> state \<Rightarrow> state" where
  "reload pr t s =
     run_until t (activate pr ((initial_state t)\<lparr>localStorage := localStorage s\<rparr>))"

text \<open>The double-backspace machine of the specification: its two states, and for a
  Backspace press with a collapsed caret the next state, whether the adjacent stamp is
  removed and whether the default action is suppressed.\<close>

datatype backspace_state = Idle | ArmedAt int

fun spec_backspace :: "backspace_state \<Rightarrow> bool \<Rightarrow> int \<Rightarrow> backspace_state \<times> bool \<times> bool" where
  "spec_backspace Idle True t = (ArmedAt t, False, True)"
| "spec_backspace (ArmedAt a) True t =
     (if t - a < 500 then (Idle, True, True) else (ArmedAt t, False, True))"
| "spec_backspace st False t = (Idle, False, False)"

definition machine_state :: "state \<Rightarrow> backspace_state" where
  "machine_state s = (if lastBackspaceTime s = 0 then Idle else ArmedAt (lastBackspaceTime s))"

text \<open>The stamp a caret is immediately adjacent to, in the words of the specification:
  the caret is at the end of a text node whose next sibling is a stamp, or in a
  container with a stamp as the immediately preceding child.  The result is the path of
  that stamp.\<close>

definition adjacent_stamp :: "node list \<Rightarrow> nat list \<Rightarrow> nat \<Rightarrow> nat list option" where
  "adjacent_stamp kids p offset =
     (case node_at (editor_div kids) p of
        None \<Rightarrow> None
      | Some (TextNode t) \<Rightarrow>
          (case node_at (editor_div kids) (nextSibling p) of
             None \<Rightarrow> None
           | Some sib \<Rightarrow>
               if offset = length t \<and> has_stampId sib then Some (nextSibling p) else None)
      | Some (Element tag attrs ls cs) \<Rightarrow>
          (case node_at (editor_div kids) (p @ [offset - 1]) of
             None \<Rightarrow> None
           | Some prev \<Rightarrow>
               if 0 < offset \<and> has_stampId prev then Some (p @ [offset - 1]) else None))"

definition caret_adjacent :: "node list \<Rightarrow> dom_range \<Rightarrow> nat list option" where
  "caret_adjacent kids r =
     (case startContainer r of
        InEditor p \<Rightarrow> adjacent_stamp kids p (startOffset r)
      | Outside \<Rightarrow> None)"

text \<open>No autosave is pending: every pending timer is the deferred
  \<^verbatim>\<open>reattachStampListeners\<close> of a load.\<close>

definition only_reattach :: "state \<Rightarrow> bool" where
  "only_reattach s =
     list_all (\<lambda>t. case snd (snd t) of Reattach seek \<Rightarrow> True | AutoSave f \<Rightarrow> False) (timers s)"

text \<open>Every pending timer is the one \<^verbatim>\<open>autoSaveTimeoutRef\<close> holds.\<close>

definition tracked :: "state \<Rightarrow> bool" where
  "tracked s = list_all (\<lambda>t. autoSaveTimeoutRef s = Some (fst t)) (timers s)"

text \<open>A typing session: an edit that leaves the editor with the given content and
  raises \<^verbatim>\<open>input\<close>, then further such edits, each after the given number of milliseconds
  has passed.\<close>

fun keystrokes :: "props \<Rightarrow> (int \<times> node list) list \<Rightarrow> state \<Rightarrow> state" where
  "keystrokes pr [] s = s"
| "keystrokes pr ((gap, kids) # es) s =
     keystrokes pr es (handleInput pr ((run_until (now s + gap) s)\<lparr>editorRef := Some kids\<rparr>))"

definition typing :: "props \<Rightarrow> node list \<Rightarrow> (int \<times> node list) list \<Rightarrow> state \<Rightarrow> state" where
  "typing pr kids es s = keystrokes pr es (handleInput pr (s\<lparr>editorRef := Some kids\<rparr>))"

section \<open>Example inputs\<close>

text \<open>Two videos, a stamp, a document of a text run followed by that stamp, and the
  panel after \<^verbatim>\<open>clip.mp4\<close> became active at a clock reading of 1000000 ms with nothing
  stored.  \<open>append_insert\<close> stands for the browser's insertion at a range where an
  example needs one.\<close>

definition clip_props :: props where
  "clip_props =
     \<lparr>videoFilename = Some ''clip.mp4'', getCurrentTime = Some (Num (25 / 2)),
      getCurrentFrame = Some (Num 375), seekToTime = True\<rparr>"

definition other_props :: props where
  "other_props =
     \<lparr>videoFilename = Some ''other.mp4'', getCurrentTime = Some (Num 0),
      getCurrentFrame = Some (Num 0), seekToTime = True\<rparr>"

definition no_video_props :: props where
  "no_video_props =
     \<lparr>videoFilename = None, getCurrentTime = None, getCurrentFrame = None, seekToTime = True\<rparr>"

definition clip_stamp :: Stamp where
  "clip_stamp =
     \<lparr>stampId = ''time-1000000'', stampType = Some ''time'', stampValue = Num (25 / 2),
      stampLabel = ''Timestamp''\<rparr>"

definition frame_stamp :: Stamp where
  "frame_stamp =
     \<lparr>stampId = ''frame-1000000'', stampType = Some ''frame'', stampValue = Num 90,
      stampLabel = ''Frame''\<rparr>"

definition clip_doc :: "node list" where
  "clip_doc = [TextNode ''abcd'', stampButton True clip_stamp ''0:00:12'']"

definition clip_state :: state where
  "clip_state = activate clip_props (initial_state 1000000)"

text \<open>The panel showing \<open>clip_doc\<close> with the caret at the end of the text run, next
  to the stamp, 100 ms after a first Backspace press there.\<close>

definition armed_state :: state where
  "armed_state =
     clip_state\<lparr>editorRef := Some clip_doc, selection := Some [caret (InEditor [0]) 4],
       lastBackspaceTime := 999900\<rparr>"

text \<open>A range that selects the first two characters of the text run.\<close>

definition two_chars :: dom_range where
  "two_chars =
     \<lparr>startContainer = InEditor [0], startOffset = 0, endContainer = InEditor [0], endOffset = 2\<rparr>"

definition append_insert :: range_insert where
  "append_insert kids r n = (kids @ [n], [], length kids)"

text \<open>A document of two text runs and two stamps.\<close>

definition notes_doc :: "segment list" where
  "notes_doc = [Run ''Intro at '', Token clip_stamp, Run '' and '', Token frame_stamp]"

text \<open>A document of three lines as the browser builds it when the user types a line,
  presses Enter, types a second line, presses Enter and types a third one:
  \<^verbatim>\<open>line1<div>line2</div><div>line3</div>\<close>.\<close>

definition three_lines :: "node list" where
  "three_lines =
     [TextNode ''line1'', Element ''div'' [] [] [TextNode ''line2''],
      Element ''div'' [] [] [TextNode ''line3'']]"

section \<open>Properties of the number and string primitives\<close>

text \<open>Rounding to the nearest double moves a non-negative number below \<open>2^53\<close> at
  most to the next integer: its floor stays or grows by one.\<close>

lemma bit_length_upper: "n < 2 ^ bit_length n"
proof (induction n rule: bit_length.induct)
  case (1 n)
  show ?case
  proof (cases "n \<le> 0")
    case True
    then show ?thesis by (simp add: bit_length.simps[of n])
  next
    case False
    with 1 have "n div 2 < 2 ^ bit_length (n div 2)" by simp
    then have "n < 2 * 2 ^ bit_length (n div 2)" by linarith
    with False show ?thesis by (simp add: bit_length.simps[of n])
  qed
qed

lemma bit_length_lower: "0 < n \<Longrightarrow> 2 ^ (bit_length n - 1) \<le> n"
proof (induction n rule: bit_length.induct)
  case (1 n)
  show ?case
  proof (cases "n div 2 \<le> 0")
    case True
    with 1(2) have "n = 1" by presburger
    then show ?thesis by (simp add: bit_length.simps[of 1] bit_length.simps[of 0])
  next
    case False
    with 1 have ih: "2 ^ (bit_length (n div 2) - 1) \<le> n div 2" by simp
    from False have pos: "0 < bit_length (n div 2)" by (simp add: bit_length.simps[of "n div 2"])
    have "bit_length n = Suc (bit_length (n div 2))"
      using 1(2) by (simp add: bit_length.simps[of n])
    then have "(2::int) ^ (bit_length n - 1) = 2 * 2 ^ (bit_length (n div 2) - 1)"
      using pos by (cases "bit_length (n div 2)") simp_all
    with ih show ?thesis by linarith
  qed
qed

lemma pow2_nat: "pow2 (int n) = 2 ^ n"
  by (simp add: pow2_def)

lemma pow2_mono: "j \<le> k \<Longrightarrow> pow2 j \<le> pow2 k"
proof -
  assume jk: "j \<le> k"
  have p: "pow2 i = 2 powi i" for i
    by (simp add: pow2_def power_int_def field_simps)
  show ?thesis unfolding p using jk by (intro power_int_increasing) simp_all
qed

lemma pow2_less_imp: "pow2 j < pow2 k \<Longrightarrow> j < k"
  using pow2_mono[of k j] by (cases "j < k") simp_all

lemma binade_bound:
  assumes "0 < q" "q < 2 ^ n"
  shows "binade q < int n"
proof -
  obtain a b where ab: "quotient_of q = (a, b)" by (cases "quotient_of q")
  then have b: "0 < b" and q: "q = of_int a / of_int b"
    by (simp_all add: quotient_of_denom_pos quotient_of_div)
  from assms(1) b q have a: "0 < a" by (simp add: zero_less_divide_iff)
  define k where "k = int (bit_length a) - int (bit_length b)"
  have bin: "binade q = (if pow2 k \<le> q then k else k - 1)"
    by (simp add: binade_def ab k_def Let_def)
  show ?thesis
  proof (cases "pow2 k \<le> q")
    case True
    with assms(2) have "pow2 k < pow2 (int n)" by (simp add: pow2_nat)
    then have "k < int n" by (rule pow2_less_imp)
    with True bin show ?thesis by simp
  next
    case False
    have lo: "2 ^ (bit_length a - 1) \<le> a"
      using a by (rule bit_length_lower)
    have hi: "b < 2 ^ bit_length b" by (rule bit_length_upper)
    from assms(2) q b have "of_int a < (2::rat) ^ n * of_int b"
      by (simp add: pos_divide_less_eq)
    then have "a < 2 ^ n * b" by (metis of_int_less_iff of_int_mult of_int_numeral of_int_power)
    also have "\<dots> < 2 ^ n * 2 ^ bit_length b" using hi by simp
    finally have "a < 2 ^ (n + bit_length b)" by (simp only: power_add)
    with lo have "(2::int) ^ (bit_length a - 1) < 2 ^ (n + bit_length b)"
      by (rule le_less_trans)
    then have "bit_length a - 1 < n + bit_length b" by simp
    then have "k - 1 < int n" unfolding k_def by linarith
    with False bin show ?thesis by simp
  qed
qed

lemma round_half_even_bounds:
  "\<lfloor>x\<rfloor> \<le> round_half_even x \<and> round_half_even x \<le> \<lceil>x\<rceil>"
proof (cases "x = of_int \<lfloor>x\<rfloor>")
  case True
  then have "round_half_even x = \<lfloor>x\<rfloor>" by (simp add: round_half_even_def Let_def)
  moreover from True have "\<lceil>x\<rceil> = \<lfloor>x\<rfloor>" by (metis ceiling_of_int)
  ultimately show ?thesis by simp
next
  case False
  then have "\<lceil>x\<rceil> = \<lfloor>x\<rfloor> + 1" by (metis ceiling_altdef)
  then show ?thesis by (simp add: round_half_even_def Let_def)
qed

lemma to_double_floor:
  assumes "0 \<le> x" "x < 2 ^ 53"
  shows "of_int \<lfloor>x\<rfloor> \<le> to_double x \<and> to_double x \<le> of_int \<lfloor>x\<rfloor> + 1"
proof (cases "x = 0")
  case True
  then show ?thesis by (simp add: to_double_def)
next
  case False
  with assms have pos: "0 < x" by simp
  define e where "e = max (binade \<bar>x\<bar> - 52) (- 1074)"
  define k where "k = nat (- e)"
  define m where "m = round_half_even (\<bar>x\<bar> / pow2 e)"
  from binade_bound[OF pos assms(2)] pos have e0: "e \<le> 0" by (simp add: e_def)
  then have pk: "pow2 e = 1 / 2 ^ k" by (auto simp: pow2_def k_def)
  from False have "to_double x = sgn x * of_int (round_half_even (\<bar>x\<bar> / pow2 e)) * pow2 e"
    unfolding to_double_def e_def Let_def by simp
  with pos have td: "to_double x = of_int m / 2 ^ k"
    unfolding m_def pk by simp
  have y: "\<bar>x\<bar> / pow2 e = x * 2 ^ k" using pos by (simp add: pk)
  have lo: "of_int (\<lfloor>x\<rfloor> * 2 ^ k) \<le> x * 2 ^ k"
    by (simp add: mult_right_mono)
  have hi: "x * 2 ^ k \<le> of_int ((\<lfloor>x\<rfloor> + 1) * 2 ^ k)"
  proof -
    have "x \<le> of_int (\<lfloor>x\<rfloor> + 1)" by linarith
    then have "x * 2 ^ k \<le> of_int (\<lfloor>x\<rfloor> + 1) * 2 ^ k" by (intro mult_right_mono) simp_all
    then show ?thesis by simp
  qed
  from lo have "\<lfloor>x\<rfloor> * 2 ^ k \<le> \<lfloor>x * 2 ^ k\<rfloor>" by (simp add: le_floor_iff)
  moreover from hi have "\<lceil>x * 2 ^ k\<rceil> \<le> (\<lfloor>x\<rfloor> + 1) * 2 ^ k" by (simp only: ceiling_le_iff)
  moreover have "\<lfloor>x * 2 ^ k\<rfloor> \<le> m \<and> m \<le> \<lceil>x * 2 ^ k\<rceil>"
    unfolding m_def y by (rule round_half_even_bounds)
  ultimately have mb: "\<lfloor>x\<rfloor> * 2 ^ k \<le> m \<and> m \<le> (\<lfloor>x\<rfloor> + 1) * 2 ^ k" by linarith
  then have "(of_int (\<lfloor>x\<rfloor> * 2 ^ k) :: rat) \<le> of_int m \<and> (of_int m :: rat) \<le> of_int ((\<lfloor>x\<rfloor> + 1) * 2 ^ k)"
    by (simp only: of_int_le_iff)
  then have "of_int \<lfloor>x\<rfloor> * 2 ^ k \<le> (of_int m :: rat) \<and> (of_int m :: rat) \<le> (of_int \<lfloor>x\<rfloor> + 1) * 2 ^ k"
    by simp
  then show ?thesis unfolding td by (simp add: pos_le_divide_eq pos_divide_le_eq)
qed

lemma floor_to_double:
  assumes "0 \<le> x" "x < 2 ^ 53"
  shows "\<lfloor>to_double x\<rfloor> = \<lfloor>x\<rfloor> \<or> \<lfloor>to_double x\<rfloor> = \<lfloor>x\<rfloor> + 1"
proof -
  from to_double_floor[OF assms]
  have b: "of_int \<lfloor>x\<rfloor> \<le> to_double x" "to_double x \<le> of_int \<lfloor>x\<rfloor> + 1" by simp_all
  show ?thesis
  proof (cases "to_double x = of_int \<lfloor>x\<rfloor> + 1")
    case True
    then have "to_double x = of_int (\<lfloor>x\<rfloor> + 1)" by simp
    then have "\<lfloor>to_double x\<rfloor> = \<lfloor>x\<rfloor> + 1" by (simp only: floor_of_int)
    then show ?thesis by simp
  next
    case False
    with b have "to_double x < of_int \<lfloor>x\<rfloor> + 1" by simp
    with b(1) have "\<lfloor>to_double x\<rfloor> = \<lfloor>x\<rfloor>" by (intro floor_unique) simp_all
    then show ?thesis by simp
  qed
qed

lemma floor_shift_div:
  fixes f :: rat
  assumes "0 \<le> f" "f < 1" "0 < d"
  shows "\<lfloor>(of_int k + f) / of_int d\<rfloor> = k div d"
proof (rule floor_unique)
  have dpos: "(0::rat) < of_int d" using assms by simp
  have "of_int (k div d) * (of_int d :: rat) = of_int (k div d * d)" by simp
  also have "\<dots> \<le> of_int k"
  proof -
    have "k div d * d + k mod d = k" by simp
    moreover have "0 \<le> k mod d" using assms(3) by simp
    ultimately have "k div d * d \<le> k" by linarith
    then show ?thesis by (simp only: of_int_le_iff)
  qed
  also have "\<dots> \<le> of_int k + f" using assms by simp
  finally show "of_int (k div d) \<le> (of_int k + f) / of_int d"
    using dpos by (simp add: pos_le_divide_eq)
  have "k < (k div d + 1) * d"
  proof -
    have "k div d * d + k mod d = k" by simp
    moreover have "k mod d < d" using assms(3) by simp
    moreover have "(k div d + 1) * d = k div d * d + d" by (simp add: distrib_right)
    ultimately show ?thesis by linarith
  qed
  then have "k + 1 \<le> (k div d + 1) * d" by simp
  then have "(of_int (k + 1) :: rat) \<le> of_int ((k div d + 1) * d)"
    by (simp only: of_int_le_iff)
  then have "of_int k + f < (of_int (k div d) + 1) * (of_int d :: rat)"
    using assms by simp
  then show "(of_int k + f) / of_int d < of_int (k div d) + 1"
    using dpos by (simp add: pos_divide_less_eq)
qed

lemma rat_floor_frac:
  fixes q :: rat
  shows "0 \<le> q - of_int \<lfloor>q\<rfloor>" "q - of_int \<lfloor>q\<rfloor> < 1"
  by linarith+

lemma number_toString_of_int:
  "0 \<le> i \<Longrightarrow> number_toString (Num (of_int i)) = nat_toString (nat i)"
  by (simp add: unsigned_toString_def)

lemma digit_char_0: "digit_char 0 = CHR ''0''"
  by (simp add: digit_char_def)

lemma padStart_two_digits:
  assumes "k < 100"
  shows "padStart 2 (CHR ''0'') (nat_toString k) = two_digits k"
proof (cases "k < 10")
  case True
  then show ?thesis
    by (simp add: padStart_def two_digits_def nat_toString.simps digit_char_0)
next
  case False
  then have "k div 10 < 10" using assms by simp
  with False show ?thesis
    by (simp add: padStart_def two_digits_def nat_toString.simps[of k] nat_toString.simps[of "k div 10"])
qed

lemma js_truncate_nonneg: "0 \<le> q \<Longrightarrow> js_truncate q = \<lfloor>q\<rfloor>"
  by (simp add: js_truncate_def)

lemma floor_div_nonneg:
  fixes q :: rat
  assumes "0 < d"
  shows "\<lfloor>q / of_int d\<rfloor> = \<lfloor>q\<rfloor> div d"
proof -
  have "\<lfloor>(of_int \<lfloor>q\<rfloor> + (q - of_int \<lfloor>q\<rfloor>)) / of_int d\<rfloor> = \<lfloor>q\<rfloor> div d"
    by (rule floor_shift_div) (use assms rat_floor_frac in auto)
  then show ?thesis by simp
qed

lemma rem_floor:
  fixes q :: rat
  assumes "0 \<le> q" "0 < d"
  shows "q - of_int d * of_int (js_truncate (q / of_int d)) = of_int (\<lfloor>q\<rfloor> mod d) + (q - of_int \<lfloor>q\<rfloor>)"
proof -
  have "js_truncate (q / of_int d) = \<lfloor>q\<rfloor> div d"
    using assms by (simp add: js_truncate_nonneg floor_div_nonneg)
  moreover have "(of_int (\<lfloor>q\<rfloor> mod d) :: rat) = of_int \<lfloor>q\<rfloor> - of_int d * of_int (\<lfloor>q\<rfloor> div d)"
    by (simp add: minus_mult_div_eq_mod[symmetric] del: minus_mult_div_eq_mod)
  ultimately show ?thesis by simp
qed

lemma formatTime_nonneg:
  assumes "0 \<le> q"
  shows "formatTime (Num q) = spec_HMMSS (nat \<lfloor>q\<rfloor>)"
proof -
  define n where "n = \<lfloor>q\<rfloor>"
  define f where "f = q - of_int n"
  have n0: "0 \<le> n" using assms by (simp add: n_def)
  have f: "0 \<le> f" "f < 1" using rat_floor_frac[of q] by (simp_all add: f_def n_def)
  have h: "\<lfloor>q / 3600\<rfloor> = n div 3600"
    using floor_div_nonneg[of 3600 q] by (simp add: n_def)
  have r1: "q - 3600 * of_int (js_truncate (q / 3600)) = of_int (n mod 3600) + f"
    using rem_floor[of q 3600] assms by (simp add: n_def f_def)
  have r2: "q - 60 * of_int (js_truncate (q / 60)) = of_int (n mod 60) + f"
    using rem_floor[of q 60] assms by (simp add: n_def f_def)
  have m: "\<lfloor>(of_int (n mod 3600) + f) / 60\<rfloor> = n mod 3600 div 60"
    using floor_shift_div[of f 60 "n mod 3600"] f by simp
  have s: "\<lfloor>of_int (n mod 60) + f\<rfloor> = n mod 60"
    using f by linarith
  have b1: "nat (n mod 3600 div 60) < 100"
    using n0 by (simp add: nat_less_iff)
  have b2: "nat (n mod 60) < 100"
    by (simp add: nat_less_iff)
  have p1: "0 \<le> n div 3600" "0 \<le> n mod 3600 div 60" "0 \<le> n mod 60"
    using n0 by (simp_all add: pos_imp_zdiv_nonneg_iff)
  have H: "number_toString (js_floor (js_div (Num q) 3600)) = nat_toString (nat (n div 3600))"
    using number_toString_of_int[OF p1(1)] by (simp add: h)
  have M: "padStart 2 (CHR ''0'') (number_toString (js_floor (js_div (js_rem (Num q) 3600) 60)))
      = two_digits (nat (n mod 3600 div 60))"
    using number_toString_of_int[OF p1(2)] padStart_two_digits[OF b1] by (simp add: r1 m)
  have S: "padStart 2 (CHR ''0'') (number_toString (js_floor (js_rem (Num q) 60)))
      = two_digits (nat (n mod 60))"
    using number_toString_of_int[OF p1(3)] padStart_two_digits[OF b2] by (simp add: r2 s)
  have N: "nat n div 3600 = nat (n div 3600)" "nat n mod 3600 div 60 = nat (n mod 3600 div 60)"
    "nat n mod 60 = nat (n mod 60)"
    using n0 by (simp_all add: nat_div_distrib nat_mod_distrib)
  show ?thesis
    unfolding formatTime_def Let_def H M S spec_HMMSS_def n_def[symmetric] N ..
qed

lemma digit_char_props:
  assumes "d < 10"
  shows "is_digit (digit_char d)" and "digit_val (digit_char d) = d"
proof -
  from assms have "d \<in> {0, 1, 2, 3, 4, 5, 6, 7, 8, 9}" by auto
  then show "is_digit (digit_char d)" and "digit_val (digit_char d) = d"
    by (auto simp: digit_char_def is_digit_def digit_val_def)
qed

lemma is_digit_not_other:
  "is_digit c \<Longrightarrow> \<not> is_whitespace c \<and> c \<noteq> CHR ''-'' \<and> c \<noteq> CHR ''+'' \<and> c \<noteq> CHR ''.''"
  by (auto simp: is_digit_def is_whitespace_def)

lemma nat_toString_digits: "list_all is_digit (nat_toString n) \<and> nat_toString n \<noteq> []"
proof (induction n rule: nat_toString.induct)
  case (1 n)
  show ?case
  proof (cases "n < 10")
    case True
    then show ?thesis by (simp add: nat_toString.simps[of n] digit_char_props)
  next
    case False
    with 1 show ?thesis by (simp add: nat_toString.simps[of n] digit_char_props)
  qed
qed

lemma digits_val_snoc: "digits_val (ds @ [c]) = 10 * digits_val ds + digit_val c"
  by (simp add: digits_val_def)

lemma nat_toString_val: "digits_val (nat_toString n) = n"
proof (induction n rule: nat_toString.induct)
  case (1 n)
  show ?case
  proof (cases "n < 10")
    case True
    then show ?thesis by (simp add: nat_toString.simps[of n] digit_char_props digits_val_def)
  next
    case False
    with 1 show ?thesis
      by (simp add: nat_toString.simps[of n] digits_val_snoc digit_char_props)
  qed
qed

lemma frac_val_Cons: "frac_val (c # ds) = (of_nat (digit_val c) + frac_val ds) / 10"
  by (simp add: frac_val_def)

lemma frac_digits_val:
  assumes "0 \<le> r" "r < 1" "r * 10 ^ k = of_int m" "k \<le> n"
  shows "frac_val (frac_digits n r) = r \<and> list_all is_digit (frac_digits n r)"
  using assms
proof (induction k arbitrary: r n m)
  case 0
  then have "r = of_int m" by simp
  with 0 have "0 \<le> m" "m < 1" by simp_all
  then have "m = 0" by simp
  with \<open>r = of_int m\<close> have "r = 0" by simp
  then show ?case by (cases n) (simp_all add: frac_val_def)
next
  case (Suc k)
  show ?case
  proof (cases "r = 0")
    case True
    then show ?thesis by (cases n) (simp_all add: frac_val_def)
  next
    case False
    from Suc.prems(4) obtain n' where n: "n = Suc n'" "k \<le> n'" by (cases n) auto
    define d where "d = \<lfloor>r * 10\<rfloor>"
    define r' where "r' = r * 10 - of_int d"
    have d: "0 \<le> d" "d < 10"
      using Suc.prems(1,2) by (simp_all add: d_def floor_less_iff)
    have r': "0 \<le> r'" "r' < 1" by (simp_all add: r'_def d_def) linarith+
    have "r' * 10 ^ k = of_int (m - d * 10 ^ k)"
      using Suc.prems(3) by (simp add: r'_def algebra_simps)
    from Suc.IH[OF r' this n(2)]
    have ih: "frac_val (frac_digits n' r') = r'" "list_all is_digit (frac_digits n' r')" by simp_all
    have nd: "nat d < 10" using d by simp
    have "frac_digits n r = digit_char (nat d) # frac_digits n' r'"
      using False by (simp add: n d_def r'_def)
    moreover have "(of_nat (nat d) + r') / 10 = r" using d by (simp add: r'_def)
    ultimately show ?thesis
      using ih nd by (simp add: frac_val_Cons digit_char_props)
  qed
qed

lemma pow10_dvd_self:
  fixes d :: nat
  assumes "0 < d" "d dvd 10 ^ k"
  shows "d dvd 10 ^ d"
  using assms
proof (induction d rule: less_induct)
  case (less d)
  show ?case
  proof (cases "d = 1")
    case True
    then show ?thesis by simp
  next
    case False
    define g where "g = gcd d 10"
    have g1: "g \<noteq> 1"
    proof
      assume "g = 1"
      then have "coprime d 10" by (simp add: g_def coprime_iff_gcd_eq_1)
      then have "coprime d (10 ^ k)" by simp
      from coprime_common_divisor_nat[OF this _ less.prems(2)] have "d = 1" by simp
      with False show False by simp
    qed
    have gd: "g dvd d" "g dvd 10" by (simp_all add: g_def)
    have gpos: "0 < g" using less.prems(1) by (simp add: g_def)
    with g1 have g2: "2 \<le> g" by simp
    define e where "e = d div g"
    have de: "d = g * e" using gd(1) by (simp add: e_def)
    have epos: "0 < e" using less.prems(1) de by (cases e) auto
    have elt: "e < d" using g2 epos de by (metis One_nat_def Suc_1 Suc_le_lessD n_less_m_mult_n mult.commute)
    have "e dvd 10 ^ k" using less.prems(2) de by (metis dvd_mult_right)
    from less.IH[OF elt epos this] have "e dvd 10 ^ e" .
    with gd(2) have "g * e dvd 10 * 10 ^ e" by (rule mult_dvd_mono)
    then have "d dvd 10 ^ Suc e" by (simp add: de)
    moreover have "(10::nat) ^ Suc e dvd 10 ^ d" using elt by (intro le_imp_power_dvd) simp
    ultimately show ?thesis by (rule dvd_trans)
  qed
qed

lemma finite_decimal_fuel:
  assumes "finite_decimal q"
  shows "\<exists>m. (q - of_int \<lfloor>q\<rfloor>) * 10 ^ nat (snd (quotient_of q)) = of_int m"
proof -
  obtain n d where nd: "quotient_of q = (n, d)" by (cases "quotient_of q") auto
  have dpos: "0 < d" using nd by (rule quotient_of_denom_pos)
  have cop: "coprime n d" using nd by (rule quotient_of_coprime)
  have q: "q = of_int n / of_int d" using nd by (rule quotient_of_div)
  from assms obtain k m where km: "q * 10 ^ k = of_int m" by (auto simp: finite_decimal_def)
  have "(of_int (n * 10 ^ k) :: rat) = of_int (m * d)"
    using km dpos by (simp add: q field_simps)
  then have "n * 10 ^ k = m * d" by (simp only: of_int_eq_iff)
  then have "d dvd n * 10 ^ k" by simp
  with cop have "d dvd 10 ^ k"
    by (metis coprime_commute coprime_dvd_mult_right_iff)
  then have "nat d dvd nat (10 ^ k)" using dpos by (simp add: nat_dvd_iff)
  then have "nat d dvd 10 ^ k" by (simp add: nat_power_eq)
  with dpos have "nat d dvd 10 ^ nat d" by (intro pow10_dvd_self[of "nat d" k]) simp_all
  then obtain c where c: "(10::nat) ^ nat d = nat d * c" by (auto simp: dvd_def)
  then have "(10::rat) ^ nat d = of_nat (nat d * c)" by (metis of_nat_numeral of_nat_power)
  then have p: "(10::rat) ^ nat d = of_int d * of_nat c" using dpos by simp
  have "q * 10 ^ nat d = of_int (n * int c)" using dpos by (simp add: p q)
  moreover have "of_int \<lfloor>q\<rfloor> * (10::rat) ^ nat d = of_int (\<lfloor>q\<rfloor> * 10 ^ nat d)" by simp
  ultimately have "(q - of_int \<lfloor>q\<rfloor>) * 10 ^ nat d = of_int (n * int c - \<lfloor>q\<rfloor> * 10 ^ nat d)"
    by (simp add: algebra_simps)
  then show ?thesis unfolding nd snd_conv by (rule exI)
qed


lemma unsigned_toString_shape:
  assumes "0 \<le> q" "finite_decimal q"
  shows "\<exists>fp. unsigned_toString q =
              nat_toString (nat \<lfloor>q\<rfloor>) @ (if fp = [] then [] else CHR ''.'' # fp) \<and>
            list_all is_digit fp \<and> frac_val fp = q - of_int \<lfloor>q\<rfloor>"
proof (cases "q - of_int \<lfloor>q\<rfloor> = 0")
  case True
  then show ?thesis
    by (intro exI[of _ "[]"]) (simp add: unsigned_toString_def frac_val_def)
next
  case False
  define r where "r = q - of_int \<lfloor>q\<rfloor>"
  define n where "n = nat (snd (quotient_of q))"
  from finite_decimal_fuel[OF assms(2)] obtain m where m: "r * 10 ^ n = of_int m"
    by (auto simp: r_def n_def)
  have r: "0 \<le> r" "r < 1" using rat_floor_frac[of q] by (simp_all add: r_def)
  from frac_digits_val[OF r m order_refl]
  have fd: "frac_val (frac_digits n r) = r" "list_all is_digit (frac_digits n r)" by simp_all
  have ne: "frac_digits n r \<noteq> []"
  proof
    assume "frac_digits n r = []"
    with fd(1) have "r = 0" by (simp add: frac_val_def)
    with False show False by (simp add: r_def)
  qed
  show ?thesis
    using False fd ne
    by (intro exI[of _ "frac_digits n r"]) (simp add: unsigned_toString_def r_def n_def)
qed

lemma parse_digits:
  assumes "list_all is_digit ip" "ip \<noteq> []" "list_all is_digit fp"
  shows "parseFloat (ip @ (if fp = [] then [] else CHR ''.'' # fp)) =
           Num (of_nat (digits_val ip) + frac_val fp)"
    and "parseFloat (CHR ''-'' # ip @ (if fp = [] then [] else CHR ''.'' # fp)) =
           Num (- (of_nat (digits_val ip) + frac_val fp))"
proof -
  define tail where "tail = (if fp = [] then [] else CHR ''.'' # fp)"
  obtain c cs where ip: "ip = c # cs" using assms(2) by (cases ip) auto
  have c: "is_digit c" using assms(1) ip by simp
  note cn = is_digit_not_other[OF c]
  have all: "\<And>x. x \<in> set ip \<Longrightarrow> is_digit x" using assms(1) by (simp add: list_all_iff)
  have allf: "\<And>x. x \<in> set fp \<Longrightarrow> is_digit x" using assms(3) by (simp add: list_all_iff)
  have nd: "\<not> is_digit (CHR ''.'')" by (simp add: is_digit_def)
  have tw: "takeWhile is_digit (ip @ tail) = ip"
    using all nd by (simp add: takeWhile_append2 tail_def)
  have dw: "dropWhile is_digit (ip @ tail) = tail"
    using all nd by (simp add: dropWhile_append2 tail_def)
  have fw: "takeWhile is_digit fp = fp" using allf by (simp add: takeWhile_eq_all_conv)
  have fpart: "(case tail of [] \<Rightarrow> [] | c # r \<Rightarrow> if c = CHR ''.'' then takeWhile is_digit r else []) = fp"
    using fw by (simp add: tail_def)
  have ws: "dropWhile is_whitespace (ip @ tail) = ip @ tail"
    using cn by (simp add: ip)
  have hd: "hd (ip @ tail) \<noteq> CHR ''-''" "hd (ip @ tail) \<noteq> CHR ''+''" "ip @ tail \<noteq> []"
    using cn by (simp_all add: ip)
  show "parseFloat (ip @ (if fp = [] then [] else CHR ''.'' # fp)) =
           Num (of_nat (digits_val ip) + frac_val fp)"
    unfolding tail_def[symmetric] parseFloat_def Let_def ws
    using hd assms(2) by (simp add: tw dw fpart)
  have wsm: "dropWhile is_whitespace (CHR ''-'' # ip @ tail) = CHR ''-'' # ip @ tail"
    by (simp add: is_whitespace_def)
  show "parseFloat (CHR ''-'' # ip @ (if fp = [] then [] else CHR ''.'' # fp)) =
           Num (- (of_nat (digits_val ip) + frac_val fp))"
    unfolding tail_def[symmetric] parseFloat_def Let_def wsm
    using assms(2) by (simp add: tw dw fpart)
qed

lemma finite_decimal_uminus: "finite_decimal q \<Longrightarrow> finite_decimal (- q)"
  unfolding finite_decimal_def
  by (metis mult_minus_left of_int_minus)

lemma parseFloat_unsigned:
  assumes "0 \<le> q" "finite_decimal q"
  shows "parseFloat (unsigned_toString q) = Num q"
    and "parseFloat (CHR ''-'' # unsigned_toString q) = Num (- q)"
proof -
  from unsigned_toString_shape[OF assms] obtain fp where
    fp: "unsigned_toString q =
              nat_toString (nat \<lfloor>q\<rfloor>) @ (if fp = [] then [] else CHR ''.'' # fp)"
      "list_all is_digit fp" "frac_val fp = q - of_int \<lfloor>q\<rfloor>" by blast
  have ip: "list_all is_digit (nat_toString (nat \<lfloor>q\<rfloor>))" "nat_toString (nat \<lfloor>q\<rfloor>) \<noteq> []"
    using nat_toString_digits by simp_all
  have v: "of_nat (digits_val (nat_toString (nat \<lfloor>q\<rfloor>))) + frac_val fp = q"
    using assms(1) by (simp add: nat_toString_val fp(3))
  show "parseFloat (unsigned_toString q) = Num q"
    using parse_digits(1)[OF ip fp(2)] v by (simp add: fp(1))
  show "parseFloat (CHR ''-'' # unsigned_toString q) = Num (- q)"
    using parse_digits(2)[OF ip fp(2)] v by (simp add: fp(1))
qed

lemma parseFloat_number_toString:
  assumes "finite_decimal q"
  shows "parseFloat (number_toString (Num q)) = Num q"
proof (cases "q < 0")
  case True
  then have "0 \<le> - q" by simp
  from parseFloat_unsigned(2)[OF this finite_decimal_uminus[OF assms]] True
  show ?thesis by simp
next
  case False
  then have "0 \<le> q" by simp
  from parseFloat_unsigned(1)[OF this assms] False show ?thesis by simp
qed

lemma number_toString_nonempty: "number_toString v \<noteq> []"
proof (cases v)
  case NaN
  then show ?thesis by simp
next
  case (Num q)
  have "unsigned_toString r \<noteq> []" for r
    using nat_toString_digits by (simp add: unsigned_toString_def Let_def)
  then show ?thesis using Num by simp
qed

lemma parseFloat_NaN: "parseFloat (number_toString NaN) = NaN"
  by code_simp

section \<open>Properties of the document and of the timers\<close>

lemmas state_defs = toast_error_def toast_success_def setItem_def removeItem_def
  setTimeout_def clearTimeout_def

lemma node_at_snoc:
  "node_at n (p @ [i]) =
     (case node_at n p of
        Some (Element tag attrs ls cs) \<Rightarrow> if i < length cs then Some (cs ! i) else None
      | _ \<Rightarrow> None)"
proof (induction n p rule: node_at.induct)
  case (1 n)
  then show ?case by (cases n) auto
next
  case (2 t i p)
  then show ?case by simp
next
  case (3 tag attrs ls kids i p)
  then show ?case by simp
qed

lemma handleKeyDown_collapsed:
  assumes "editorRef s = Some kids" "selection s = Some (r # rs)" "collapsed r"
  shows "handleKeyDown ''Backspace'' s =
           (case caret_adjacent kids r of
              Some path \<Rightarrow> press_at_stamp path kids s
            | None \<Rightarrow> (s\<lparr>lastBackspaceTime := 0\<rparr>, False))"
proof (cases "startContainer r")
  case Outside
  then show ?thesis using assms by (simp add: handleKeyDown_def caret_adjacent_def)
next
  case (InEditor p)
  show ?thesis
  proof (cases "node_at (editor_div kids) p")
    case None
    then show ?thesis using assms InEditor
      by (simp add: handleKeyDown_def caret_adjacent_def adjacent_stamp_def)
  next
    case (Some n)
    show ?thesis
    proof (cases n)
      case (TextNode t)
      then show ?thesis using assms InEditor Some
        by (auto simp: handleKeyDown_def caret_adjacent_def adjacent_stamp_def split: option.splits)
    next
      case (Element tag attrs ls cs)
      then show ?thesis using assms InEditor Some
        by (auto simp: handleKeyDown_def caret_adjacent_def adjacent_stamp_def node_at_snoc
            split: option.splits)
    qed
  qed
qed

lemma caret_adjacent_is_stamp:
  assumes "caret_adjacent kids r = Some path"
  shows "\<exists>n. node_at (editor_div kids) path = Some n \<and> has_stampId n"
  using assms
  by (auto simp: caret_adjacent_def adjacent_stamp_def
      split: container.splits option.splits node.splits if_splits)

lemma due_timer_Nil: "timers s = [] \<Longrightarrow> due_timer T s = None"
  by (simp add: due_timer_def)

lemma run_until_idle: "due_timer T s = None \<Longrightarrow> run_until T s = s\<lparr>now := max (now s) T\<rparr>"
  by (simp add: run_until.simps)

lemma earliest_mem: "earliest ts = Some u \<Longrightarrow> u \<in> set ts"
  by (induction ts arbitrary: u) (auto split: option.splits if_splits)

lemma due_timer_mem: "due_timer T s = Some t \<Longrightarrow> t \<in> set (timers s)"
  by (auto simp: due_timer_def split: option.splits if_splits dest: earliest_mem)

lemma fire_Reattach:
  "fire (i, d, Reattach seek) s =
     reattachStampListeners seek
       (s\<lparr>timers := filter (\<lambda>u. fst u \<noteq> i) (timers s), now := max (now s) d\<rparr>)"
  by (simp add: fire_def)

lemma run_until_only_reattach:
  "only_reattach s \<Longrightarrow>
     localStorage (run_until T s) = localStorage s \<and> storageLog (run_until T s) = storageLog s"
proof (induction T s rule: run_until.induct)
  case (1 T s)
  show ?case
  proof (cases "due_timer T s")
    case None
    then show ?thesis by (simp add: run_until_idle)
  next
    case (Some t)
    then have mem: "t \<in> set (timers s)" by (rule due_timer_mem)
    obtain i d cb where t: "t = (i, d, cb)" by (cases t) auto
    from mem "1.prems" obtain seek where cb: "cb = Reattach seek"
      by (cases cb) (auto simp: only_reattach_def list_all_iff t)
    have keep: "localStorage (fire t s) = localStorage s" "storageLog (fire t s) = storageLog s"
      by (simp_all add: t cb fire_Reattach reattachStampListeners_def split: option.splits)
    have "only_reattach (fire t s)"
      using "1.prems"
      by (auto simp: t cb fire_Reattach reattachStampListeners_def only_reattach_def list_all_iff
          split: option.splits)
    with "1.IH"[OF Some] keep have
      "localStorage (run_until T (fire t s)) = localStorage s \<and>
       storageLog (run_until T (fire t s)) = storageLog s" by simp
    moreover have "run_until T s = run_until T (fire t s)"
      using Some by (subst run_until.simps) simp
    ultimately show ?thesis by simp
  qed
qed

lemma armed_state_facts:
  "editorRef armed_state = Some clip_doc"
  "selection armed_state = Some [caret (InEditor [0]) 4]"
  "collapsed (caret (InEditor [0]) 4)"
  "caret_adjacent clip_doc (caret (InEditor [0]) 4) = Some [Suc 0]"
  "now armed_state = 1000000"
  "lastBackspaceTime armed_state = 999900"
  "timers armed_state = []"
  "remove_at clip_doc [Suc 0] = [TextNode ''abcd'']"
  by code_simp+





lemma due_timer_single:
  "timers s = [(i, d, cb)] \<Longrightarrow> due_timer T s = (if d \<le> T then Some (i, d, cb) else None)"
  by (simp add: due_timer_def)



lemma clip_state_facts:
  "tracked clip_state" "now clip_state = 1000000" "storageLog clip_state = []"
  "videoFilename clip_props = Some ''clip.mp4''" "lastTimerId clip_state = 0"
  by code_simp+

lemma all_stamps_simps:
  "all_stamps [] = []"
  "all_stamps (n # ns) = querySelectorAll_stamps n @ all_stamps ns"
  "all_stamps (xs @ ys) = all_stamps xs @ all_stamps ys"
  by (simp_all add: all_stamps_def)

lemma all_stamps_fold: "concat (map querySelectorAll_stamps kids) = all_stamps kids"
  by (simp add: all_stamps_def)

lemma text_before_stamps: "all_stamps (text_before a m) = all_stamps m"
  by (cases "(a, m)" rule: text_before.cases) (simp_all add: all_stamps_simps)

lemma text_before_no_nested: "list_all no_nested (text_before a m) = list_all no_nested m"
  by (cases "(a, m)" rule: text_before.cases) simp_all

lemma text_before_export:
  "concat (map export_text (text_before a m)) = a @ concat (map export_text m)"
  by (cases "(a, m)" rule: text_before.cases) simp_all

lemma innerHTML_attrs:
  "map attributes_of (all_stamps (innerHTML f)) = map attributes_of (all_stamps f)"
proof (induction f rule: innerHTML.induct)
  case 1
  then show ?case by simp
next
  case (2 a rest)
  then show ?case by (simp add: all_stamps_simps text_before_stamps)
next
  case (3 tag attrs ls kids rest)
  then show ?case by (simp add: all_stamps_simps all_stamps_fold)
qed

lemma all_stamps_Nil_attrs: "map attributes_of (all_stamps f) = [] \<longleftrightarrow> all_stamps f = []"
  by simp

lemma innerHTML_no_stamps: "all_stamps f = [] \<Longrightarrow> all_stamps (innerHTML f) = []"
  using innerHTML_attrs[of f] by simp

lemma innerHTML_no_nested: "list_all no_nested f \<Longrightarrow> list_all no_nested (innerHTML f)"
proof (induction f rule: innerHTML.induct)
  case 1
  then show ?case by simp
next
  case (2 a rest)
  then show ?case by (simp add: text_before_no_nested)
next
  case (3 tag attrs ls kids rest)
  then show ?case
    by (auto simp: all_stamps_fold innerHTML_no_stamps simp del: concat_eq_Nil_conv)
qed

lemma cloneNode_stamps:
  "map attributes_of (querySelectorAll_stamps (cloneNode n)) =
   map attributes_of (querySelectorAll_stamps n)"
proof (induction n)
  case (TextNode t)
  then show ?case by simp
next
  case (Element tag attrs ls kids)
  have "map attributes_of (concat (map querySelectorAll_stamps (map cloneNode kids))) =
        map attributes_of (concat (map querySelectorAll_stamps kids))"
    using Element.IH by (induction kids) auto
  then show ?case by simp
qed

lemma cloneNode_no_stamps:
  assumes "all_stamps kids = []"
  shows "all_stamps (map cloneNode kids) = []"
proof -
  have "map attributes_of (all_stamps (map cloneNode kids)) = map attributes_of (all_stamps kids)"
    using cloneNode_stamps by (induction kids) (simp_all add: all_stamps_simps)
  with assms show ?thesis by simp
qed

lemma reattach_handlers:
  "no_nested n \<Longrightarrow>
   map (\<lambda>e. (attributes_of e, listeners_of e)) (querySelectorAll_stamps (reattach_node sk n)) =
   map (\<lambda>e. (attributes_of e, [ClickListener sk (dataset_stamp (attributes_of e))]))
     (querySelectorAll_stamps n)"
proof (induction n)
  case (TextNode t)
  then show ?case by simp
next
  case (Element tag attrs ls kids)
  show ?case
  proof (cases "is_stamp_button tag attrs")
    case True
    with Element.prems have k: "all_stamps kids = []" by (simp add: all_stamps_def)
    then have c: "all_stamps (map cloneNode kids) = []" by (rule cloneNode_no_stamps)
    show ?thesis
      by (simp only: reattach_node.simps querySelectorAll_stamps.simps True if_True
          all_stamps_fold c k append_Nil2 list.map attributes_of.simps listeners_of.simps)

  next
    case False
    with Element.prems have nn: "list_all no_nested kids" by simp
    have "map (\<lambda>e. (attributes_of e, listeners_of e))
            (concat (map querySelectorAll_stamps (map (reattach_node sk) kids))) =
          map (\<lambda>e. (attributes_of e, [ClickListener sk (dataset_stamp (attributes_of e))]))
            (concat (map querySelectorAll_stamps kids))"
      using Element.IH nn by (induction kids) auto
    with False show ?thesis by simp
  qed
qed

lemma reattach_handlers_doc:
  assumes "list_all no_nested g"
  shows "map (\<lambda>e. (attributes_of e, listeners_of e)) (all_stamps (map (reattach_node sk) g)) =
         map (\<lambda>e. (attributes_of e, [ClickListener sk (dataset_stamp (attributes_of e))]))
           (all_stamps g)"
  using assms by (induction g) (simp_all add: all_stamps_simps reattach_handlers)

lemma stampButton_stamps:
  "querySelectorAll_stamps (stampButton seek st txt) = [stampButton seek st txt]"
  by (simp add: stampButton_def is_stamp_button_def time_icon_def frame_icon_def)

lemma stampButton_no_nested: "no_nested (stampButton seek st txt)"
  by (simp add: stampButton_def is_stamp_button_def time_icon_def frame_icon_def)

lemma render_stamps:
  "all_stamps (map (render_segment seek) segs) =
     map (\<lambda>st. stampButton seek st (display_text st)) (tokens segs)"
  by (induction segs rule: tokens.induct) (simp_all add: all_stamps_simps stampButton_stamps)

lemma render_no_nested: "list_all no_nested (map (render_segment seek) segs)"
  by (induction segs rule: tokens.induct) (simp_all add: stampButton_no_nested)

lemma dataset_stamp_stampButton:
  assumes "creatable st"
  shows "dataset_stamp (attributes_of (stampButton seek st txt)) = st"
proof -
  from assms obtain q where q: "stampValue st = Num q" "finite_decimal q"
    by (auto simp: creatable_def)
  from assms obtain ty where ty: "stampType st = Some ty" by (auto simp: creatable_def)
  have v: "parseFloat (or_else (Some (number_toString (stampValue st))) ''0'') = stampValue st"
    using number_toString_nonempty[of "stampValue st"] parseFloat_number_toString[OF q(2)]
    by (simp add: q(1))
  have i: "or_else (Some (stampId st)) '''' = stampId st" by simp
  have l: "or_else (Some (stampLabel st)) '''' = stampLabel st" by simp
  show ?thesis
    by (rule Stamp.equality)
       (simp_all add: stampButton_def dataset_stamp_def v ty i l del: or_else.simps)
qed

lemma saveNotes_stores:
  assumes "videoFilename pr = Some f" "f \<noteq> []" "editorRef s = Some doc"
  shows "localStorage (saveNotes pr s) (storageKey f) = Some (innerHTML doc)"
  using assms by (simp add: saveNotes_def state_defs)

lemma reload_editor:
  assumes "videoFilename pr = Some f" "f \<noteq> []" "localStorage s (storageKey f) = Some stored"
  shows "editorRef (reload pr t s) = Some (map (reattach_node (seekToTime pr)) (innerHTML stored))"
proof (cases "innerHTML stored = []")
  case True
  define a where "a = activate pr ((initial_state t)\<lparr>localStorage := localStorage s\<rparr>)"
  have a: "timers a = []" "editorRef a = Some []"
    using assms True
    by (simp_all add: a_def activate_def render_def loadNotes_def initial_state_def)
  have "run_until t a = a\<lparr>now := max (now a) t\<rparr>"
    using a(1) by (simp add: run_until_idle due_timer_Nil)
  then show ?thesis using a(2) True by (simp add: reload_def a_def[symmetric])
next
  case False
  define a where "a = activate pr ((initial_state t)\<lparr>localStorage := localStorage s\<rparr>)"
  have a: "timers a = [(Suc 0, t, Reattach (seekToTime pr))]" "editorRef a = Some (innerHTML stored)"
    using assms False
    by (simp_all add: a_def activate_def render_def loadNotes_def initial_state_def state_defs)
  define b where "b = fire (Suc 0, t, Reattach (seekToTime pr)) a"
  have b: "timers b = []" "editorRef b = Some (map (reattach_node (seekToTime pr)) (innerHTML stored))"
    using a by (simp_all add: b_def fire_Reattach reattachStampListeners_def)
  have "due_timer t a = Some (Suc 0, t, Reattach (seekToTime pr))"
    using a(1) by (simp add: due_timer_single)
  then have "run_until t a = run_until t b"
    by (subst run_until.simps) (simp add: b_def)
  also have "\<dots> = b\<lparr>now := max (now b) t\<rparr>"
    using b(1) by (simp add: run_until_idle due_timer_Nil)
  finally show ?thesis using b(2) by (simp add: reload_def a_def[symmetric])
qed

lemma handlers_after_reload:
  assumes "list_all creatable (tokens segs)"
  shows "map (\<lambda>n. (dataset_stamp (attributes_of n), listeners_of n))
           (all_stamps (map (reattach_node sk)
              (innerHTML (innerHTML (map (render_segment seek) segs))))) =
         map (\<lambda>st. (st, [ClickListener sk st])) (tokens segs)"
proof -
  define doc where "doc = map (render_segment seek) segs"
  define g where "g = innerHTML (innerHTML doc)"
  have nn: "list_all no_nested g"
    unfolding g_def doc_def by (intro innerHTML_no_nested render_no_nested)
  have at: "map attributes_of (all_stamps g) =
            map (\<lambda>st. attributes_of (stampButton seek st (display_text st))) (tokens segs)"
    unfolding g_def doc_def by (simp add: innerHTML_attrs render_stamps o_def)
  have "map (\<lambda>n. (dataset_stamp (attributes_of n), listeners_of n))
           (all_stamps (map (reattach_node sk) g)) =
        map (\<lambda>p. (dataset_stamp (fst p), snd p))
           (map (\<lambda>e. (attributes_of e, listeners_of e)) (all_stamps (map (reattach_node sk) g)))"
    by (simp add: o_def)
  also have "\<dots> = map (\<lambda>p. (dataset_stamp (fst p), snd p))
           (map (\<lambda>e. (attributes_of e, [ClickListener sk (dataset_stamp (attributes_of e))]))
              (all_stamps g))"
    by (simp only: reattach_handlers_doc[OF nn])
  also have "\<dots> = map (\<lambda>a. (dataset_stamp a, [ClickListener sk (dataset_stamp a)]))
           (map attributes_of (all_stamps g))"
    by (simp add: o_def)
  also have "\<dots> = map (\<lambda>st. (st, [ClickListener sk st])) (tokens segs)"
    using assms unfolding at
    by (induction segs rule: tokens.induct) (simp_all add: dataset_stamp_stampButton)
  finally show ?thesis by (simp add: g_def doc_def)
qed

lemma stored_stamps:
  assumes "list_all creatable (tokens segs)"
  shows "map (\<lambda>n. dataset_stamp (attributes_of n))
           (all_stamps (innerHTML (map (render_segment seek) segs))) = tokens segs"
proof -
  have "map (\<lambda>n. dataset_stamp (attributes_of n))
           (all_stamps (innerHTML (map (render_segment seek) segs))) =
        map dataset_stamp (map attributes_of (all_stamps (innerHTML (map (render_segment seek) segs))))"
    by (simp add: o_def)
  also have "\<dots> = map dataset_stamp
      (map (\<lambda>st. attributes_of (stampButton seek st (display_text st))) (tokens segs))"
    by (simp add: innerHTML_attrs render_stamps o_def)
  also have "\<dots> = tokens segs"
    using assms by (induction segs rule: tokens.induct) (simp_all add: dataset_stamp_stampButton)
  finally show ?thesis .
qed

lemma textContent_export_node: "textContent (export_node n) = export_text n"
proof (induction n)
  case (TextNode t)
  then show ?case by simp
next
  case (Element tag attrs ls kids)
  have "concat (map textContent (map export_node kids)) = concat (map export_text kids)"
    using Element.IH by (induction kids) auto
  then show ?case by simp
qed

lemma export_text_innerHTML:
  "concat (map export_text (innerHTML f)) = concat (map export_text f)"
proof (induction f rule: innerHTML.induct)
  case 1
  then show ?case by simp
next
  case (2 a rest)
  then show ?case by (simp add: text_before_export)
next
  case (3 tag attrs ls kids rest)
  then show ?case by simp
qed

lemma export_text_stampButton:
  assumes "creatable st"
  shows "export_text (stampButton seek st txt) = bracket_form st"
proof -
  from assms obtain q where q: "stampValue st = Num q" "finite_decimal q"
    by (auto simp: creatable_def)
  have ne: "number_toString (Num q) \<noteq> []" by (rule number_toString_nonempty)
  have v: "parseFloat (number_toString (Num q)) = Num q" by (rule parseFloat_number_toString[OF q(2)])
  from assms have "stampType st = Some ''time'' \<or> stampType st = Some ''frame''"
    by (simp add: creatable_def)
  then show ?thesis
  proof
    assume "stampType st = Some ''time''"
    then show ?thesis
      using ne v
      by (simp add: stampButton_def is_stamp_button_def stamp_export_text_def bracket_form_def q(1)
          del: number_toString.simps)
  next
    assume "stampType st = Some ''frame''"
    then show ?thesis
      using ne
      by (simp add: stampButton_def is_stamp_button_def stamp_export_text_def bracket_form_def q(1)
          del: number_toString.simps)
  qed
qed

lemma export_text_render:
  assumes "list_all creatable (tokens segs)"
  shows "concat (map export_text (map (render_segment seek) segs)) = concat (map segment_text segs)"
  using assms by (induction segs rule: tokens.induct) (simp_all add: export_text_stampButton)

lemma strip_extension_ext:
  assumes "ext \<noteq> []" "list_all (\<lambda>x. x \<noteq> CHR ''/'' \<and> x \<noteq> CHR ''.'') ext"
  shows "strip_extension (base @ CHR ''.'' # ext) = base"
  using assms by (induction base) (auto simp: list_all_iff)

lemma strip_extension_none: "CHR ''.'' \<notin> set f \<Longrightarrow> strip_extension f = f"
  by (induction f) auto

lemma formatTime_example: "formatTime (Num (627 / 5)) = ''0:02:05''"
  by code_simp

lemma number_toString_90: "number_toString (Num 90) = ''90''"
  by code_simp

lemma example_stamps_creatable: "creatable clip_stamp" "creatable frame_stamp"
proof -
  have "(25 / 2 :: rat) * 10 ^ 1 = of_int 125" by simp
  then have "finite_decimal (25 / 2)" unfolding finite_decimal_def by blast
  then show "creatable clip_stamp"
    unfolding creatable_def by (intro conjI exI[of _ "25 / 2"]) (simp_all add: clip_stamp_def)
  have "(90 :: rat) * 10 ^ 0 = of_int 90" by simp
  then have "finite_decimal 90" unfolding finite_decimal_def by blast
  then show "creatable frame_stamp"
    unfolding creatable_def by (intro conjI exI[of _ 90]) (simp_all add: frame_stamp_def)
qed

section \<open>Claims about the stamp model\<close>

text \<open>
  Claim C5.  For every non-negative number of seconds, \<open>formatTime\<close> returns
  \<open>H:MM:SS\<close> computed from the floor of the seconds: the hours as an unpadded decimal
  numeral, the minutes and the seconds as two digits each, nothing rounded up.  In
  particular \<open>formatTime(3661) = "1:01:01"\<close> and \<open>formatTime(59) = "0:00:59"\<close>.
\<close>

theorem formatTime_HMMSS:
  "(0 \<le> q \<longrightarrow> formatTime (Num q) = spec_HMMSS (nat \<lfloor>q\<rfloor>)) \<and>
   formatTime (Num 3661) = ''1:01:01'' \<and> formatTime (Num 59) = ''0:00:59''"
proof (intro conjI impI)
  assume "0 \<le> q"
  then show "formatTime (Num q) = spec_HMMSS (nat \<lfloor>q\<rfloor>)" by (rule formatTime_nonneg)
next
  show "formatTime (Num 3661) = ''1:01:01''" by code_simp
next
  show "formatTime (Num 59) = ''0:00:59''" by code_simp
qed

theorem formatTime_HMMSS_witness:
  "formatTime (Num (599 / 10)) = spec_HMMSS 59 \<and> spec_HMMSS 59 = ''0:00:59''"
proof -
  have "(0::rat) \<le> 599 / 10" by simp
  with formatTime_HMMSS [of "599 / 10"]
  have "formatTime (Num (599 / 10)) = spec_HMMSS (nat \<lfloor>(599 / 10 :: rat)\<rfloor>)" by blast
  moreover have "nat \<lfloor>(599 / 10 :: rat)\<rfloor> = 59" by code_simp
  moreover have "spec_HMMSS 59 = ''0:00:59''" by code_simp
  ultimately show ?thesis by simp
qed

section \<open>Claims about the operations\<close>

text \<open>
  Claim C9, as amended.  Activating a stamp seeks at a fixed 30 frames per second: with a
  seek collaborator, a time stamp seeks to its value in seconds and a frame stamp to its
  value divided by 30, the quotient rounded to the nearest double; the frame accessor
  returns the floor of the current time multiplied by 30, the product rounded to the
  nearest double before the floor is taken, which is the floor of the exact product or
  one more; without a seek collaborator the activation shows an error notice and does
  nothing else.
\<close>

theorem stamp_activation_seeks:
  "(stampType st = Some ''time'' \<longrightarrow>
      seeks (handleStampClick True st s) = seeks s @ [stampValue st]) \<and>
   (stampType st = Some ''frame'' \<and> stampValue st = Num v \<and> is_double v \<longrightarrow>
      seeks (handleStampClick True st s) = seeks s @ [Num (to_double (v / 30))]) \<and>
   (is_double t \<and> 0 \<le> t \<and> t * 30 < 2 ^ 53 \<longrightarrow>
      getCurrentVideoFrame (Num t) = Num (of_int \<lfloor>to_double (t * 30)\<rfloor>) \<and>
      (\<lfloor>to_double (t * 30)\<rfloor> = \<lfloor>t * 30\<rfloor> \<or> \<lfloor>to_double (t * 30)\<rfloor> = \<lfloor>t * 30\<rfloor> + 1)) \<and>
   handleStampClick False st s =
     s\<lparr>toasts := toasts s @ [ToastError ''Cannot navigate to timestamp'']\<rparr>"
proof (intro conjI impI)
  assume "stampType st = Some ''time''"
  then show "seeks (handleStampClick True st s) = seeks s @ [stampValue st]"
    by (simp add: handleStampClick_def state_defs)
next
  assume "stampType st = Some ''frame'' \<and> stampValue st = Num v \<and> is_double v"
  then show "seeks (handleStampClick True st s) = seeks s @ [Num (to_double (v / 30))]"
    by (simp add: handleStampClick_def state_defs)
next
  show "getCurrentVideoFrame (Num t) = Num (of_int \<lfloor>to_double (t * 30)\<rfloor>)"
    by (simp add: getCurrentVideoFrame_def)
next
  assume "is_double t \<and> 0 \<le> t \<and> t * 30 < 2 ^ 53"
  then have "0 \<le> t * 30" "t * 30 < 2 ^ 53" by simp_all
  then show "\<lfloor>to_double (t * 30)\<rfloor> = \<lfloor>t * 30\<rfloor> \<or> \<lfloor>to_double (t * 30)\<rfloor> = \<lfloor>t * 30\<rfloor> + 1"
    by (rule floor_to_double)
next
  show "handleStampClick False st s =
     s\<lparr>toasts := toasts s @ [ToastError ''Cannot navigate to timestamp'']\<rparr>"
    by (simp add: handleStampClick_def state_defs)
qed

theorem stamp_activation_seeks_witness:
  "seeks (handleStampClick True frame_stamp (initial_state 0)) = [Num 3] \<and>
   seeks (handleStampClick True clip_stamp (initial_state 0)) = [Num (25 / 2)] \<and>
   getCurrentVideoFrame (Num (to_double (41 / 10))) = Num 122"
proof -
  have d: "is_double 90" by code_simp
  have q: "to_double (90 / 30) = 3" by code_simp
  have t: "is_double (to_double (41 / 10)) \<and> 0 \<le> to_double (41 / 10) \<and>
      to_double (41 / 10) * 30 < 2 ^ 53" by code_simp
  have f: "\<lfloor>to_double (to_double (41 / 10) * 30)\<rfloor> = 122" by code_simp
  have k: "stampType frame_stamp = Some ''frame'' \<and> stampValue frame_stamp = Num 90"
    by (simp add: frame_stamp_def)
  have c: "stampType clip_stamp = Some ''time''" "stampValue clip_stamp = Num (25 / 2)"
    by (simp_all add: clip_stamp_def)
  have i: "seeks (initial_state 0) = []" by (simp add: initial_state_def)
  from stamp_activation_seeks [of frame_stamp "initial_state 0" 90 "to_double (41 / 10)"] d k t
  have "seeks (handleStampClick True frame_stamp (initial_state 0)) =
          seeks (initial_state 0) @ [Num (to_double (90 / 30))] \<and>
        getCurrentVideoFrame (Num (to_double (41 / 10))) =
          Num (of_int \<lfloor>to_double (to_double (41 / 10) * 30)\<rfloor>)"
    by blast
  moreover from stamp_activation_seeks [of clip_stamp "initial_state 0"] c(1)
  have "seeks (handleStampClick True clip_stamp (initial_state 0)) =
          seeks (initial_state 0) @ [stampValue clip_stamp]"
    by blast
  ultimately show ?thesis
    by (simp only: q f i c append_Nil of_int_numeral)
qed

text \<open>The claim as written fails for the frame accessor.  At the double written \<open>0.3\<close>,
  which lies just below three tenths, the exact product with 30 lies just below 9 and its
  floor is 8; the product of the two doubles is 9, and so is the frame number.  Likewise
  the seek target of frame 1 is the double nearest to one thirtieth, not one thirtieth.\<close>

theorem frame_accessor_floors_rounded_product:
  "is_double (to_double (3 / 10)) \<and>
   getCurrentVideoFrame (Num (to_double (3 / 10))) = Num 9 \<and>
   \<lfloor>to_double (3 / 10) * 30\<rfloor> = 8 \<and>
   seeks (handleStampClick True (frame_stamp\<lparr>stampValue := Num 1\<rparr>) (initial_state 0)) =
     [Num (to_double (1 / 30))] \<and>
   to_double (1 / 30) \<noteq> 1 / 30"
proof (intro conjI)
  show "is_double (to_double (3 / 10))" by code_simp
  show "getCurrentVideoFrame (Num (to_double (3 / 10))) = Num 9" by code_simp
  show "\<lfloor>to_double (3 / 10) * 30\<rfloor> = 8" by code_simp
  show "seeks (handleStampClick True (frame_stamp\<lparr>stampValue := Num 1\<rparr>) (initial_state 0)) =
     [Num (to_double (1 / 30))]" by code_simp
  show "to_double (1 / 30) \<noteq> 1 / 30" by code_simp
qed

text \<open>
  Claim C8, as amended.  With no active video, save and export change nothing but the
  notices, to which each adds an error notice of its own; clear changes nothing at all,
  and in particular shows no notice.
\<close>

theorem no_video_guards:
  "\<not> truthy (videoFilename pr) \<longrightarrow>
     saveNotes pr s = s\<lparr>toasts := toasts s @ [ToastError ''No video loaded'']\<rparr> \<and>
     exportNotes pr s = s\<lparr>toasts := toasts s @ [ToastError ''No notes to export'']\<rparr> \<and>
     clearNotes pr confirmed s = s"
  by (cases "videoFilename pr"; cases "editorRef s")
     (simp_all add: saveNotes_def exportNotes_def clearNotes_def state_defs)

theorem no_video_guards_witness:
  "toasts (saveNotes no_video_props (initial_state 0)) = [ToastError ''No video loaded''] \<and>
   toasts (exportNotes no_video_props (initial_state 0)) = [ToastError ''No notes to export''] \<and>
   clearNotes no_video_props True (initial_state 0) = initial_state 0"
  using no_video_guards [of no_video_props "initial_state 0" True]
  by (simp add: initial_state_def no_video_props_def)

text \<open>The claim as written fails for clear: it shows no notice.\<close>

theorem clear_without_video_is_silent:
  "toasts (clearNotes no_video_props True (initial_state 0)) = []"
  by (simp add: clearNotes_def initial_state_def no_video_props_def)

text \<open>
  Claim C7.  With the editor mounted, \<^verbatim>\<open>insertStampButton\<close> appends the stamp at the end
  of the document when there is no selection object or when the first range lies outside
  the editor; on a selection without any range it throws \<^verbatim>\<open>IndexSizeError\<close> and
  inserts nothing, where the claim asks for the same append.
\<close>

theorem insertStampButton_selection_cases:
  "editorRef s = Some kids \<longrightarrow>
     (selection s = Some [] \<longrightarrow> insertStampButton ins pr st txt s = Inl IndexSizeError) \<and>
     (selection s = None \<or> (\<exists>r rs. selection s = Some (r # rs) \<and> \<not> editor_contains r) \<longrightarrow>
        (\<exists>s'. insertStampButton ins pr st txt s = Inr s' \<and>
              editorRef s' = Some (kids @ [stampButton (seekToTime pr) st txt])))"
  by (auto simp: insertStampButton_def Let_def state_defs split: option.splits prod.splits)

theorem insertStampButton_selection_cases_witness:
  "insertStampButton append_insert clip_props clip_stamp ''0:00:12'' clip_state
     = Inl IndexSizeError \<and>
   (\<exists>s'. insertStampButton append_insert clip_props clip_stamp ''0:00:12''
            (clip_state\<lparr>selection := None\<rparr>) = Inr s' \<and>
         editorRef s' = Some [stampButton True clip_stamp ''0:00:12''])"
proof -
  have e: "editorRef clip_state = Some []" and sel: "selection clip_state = Some []"
    and seek: "seekToTime clip_props = True"
    by code_simp+
  from insertStampButton_selection_cases
         [of clip_state "[]" append_insert clip_props clip_stamp "''0:00:12''"] e sel
  have "insertStampButton append_insert clip_props clip_stamp ''0:00:12'' clip_state
          = Inl IndexSizeError" by blast
  moreover from insertStampButton_selection_cases
         [of "clip_state\<lparr>selection := None\<rparr>" "[]" append_insert clip_props clip_stamp "''0:00:12''"] e
  have "\<exists>s'. insertStampButton append_insert clip_props clip_stamp ''0:00:12''
            (clip_state\<lparr>selection := None\<rparr>) = Inr s' \<and>
         editorRef s' = Some [stampButton True clip_stamp ''0:00:12'']"
    by (simp add: seek)
  ultimately show ?thesis by blast
qed

text \<open>The effect that loads the notes of a video leaves every pending timer pending.\<close>

lemma activate_keeps_timers: "set (timers s) \<subseteq> set (timers (activate pr s))"
  by (auto simp: activate_def render_def loadNotes_def state_defs
      split: option.splits if_splits)

text \<open>
  Claim C1.  The autosave that typing schedules keeps the file name of the video it was
  scheduled for, but the effect that loads another video's notes does not cancel it, and
  it reads the editor when it fires.  Here \<^verbatim>\<open>clip.mp4\<close> is active and the user types
  at 1000000 ms; at 1000100 ms \<^verbatim>\<open>other.mp4\<close>, which has stored notes, becomes active;
  at 1001000 ms the pending autosave stores the notes of \<^verbatim>\<open>other.mp4\<close> under the key
  of \<^verbatim>\<open>clip.mp4\<close>.
\<close>

theorem autosave_after_switch_overwrites:
  "localStorage
     (run_until 1001000
        (activate other_props
           (run_until 1000100
              (typing clip_props [TextNode ''abcd''] []
                 (clip_state\<lparr>localStorage := (localStorage clip_state)
                     (storageKey ''other.mp4'' := Some [TextNode ''notes of the other video''])\<rparr>)))))
     (storageKey ''clip.mp4'') = Some [TextNode ''notes of the other video'']"
  by code_simp

text \<open>
  Claim C2, as amended.  With the editor mounted: a key other than Backspace, and a
  Backspace press with no selection, no range or a range that is not collapsed, change
  nothing and suppress nothing, so an armed machine stays armed.  For a Backspace press
  with a collapsed caret, at a clock reading of at least 500 ms, the handler follows the
  two-state machine of the specification: next to a stamp, from Idle it arms and removes
  nothing; armed less than 500 ms ago it removes the adjacent stamp, marks the document
  dirty and returns to Idle; armed 500 ms ago or more it arms again; in these three cases
  the default action is suppressed.  Not next to a stamp it returns to Idle and
  suppresses nothing.  The node removed is the one at the path \<open>caret_adjacent\<close>
  gives, which by \<open>caret_adjacent_is_stamp\<close> carries a stamp identifier.
\<close>

theorem double_backspace_machine:
  "editorRef s = Some kids \<longrightarrow>
   (key \<noteq> ''Backspace'' \<longrightarrow> handleKeyDown key s = (s, False)) \<and>
   (selection s = None \<or> selection s = Some [] \<longrightarrow> handleKeyDown ''Backspace'' s = (s, False)) \<and>
   (\<forall>r rs. selection s = Some (r # rs) \<longrightarrow>
      (\<not> collapsed r \<longrightarrow> handleKeyDown ''Backspace'' s = (s, False)) \<and>
      (collapsed r \<longrightarrow> 500 \<le> now s \<longrightarrow>
         (case spec_backspace (machine_state s) (caret_adjacent kids r \<noteq> None) (now s) of
            (st', removes, suppress) \<Rightarrow>
              (case handleKeyDown ''Backspace'' s of
                 (s', prevented) \<Rightarrow>
                   machine_state s' = st' \<and> prevented = suppress \<and>
                   (removes \<longrightarrow>
                      editorRef s' = Some (remove_at kids (the (caret_adjacent kids r))) \<and>
                      hasChanges s') \<and>
                   (\<not> removes \<longrightarrow> editorRef s' = Some kids \<and> hasChanges s' = hasChanges s)))))"
proof (intro impI conjI allI)
  assume "editorRef s = Some kids" "key \<noteq> ''Backspace''"
  then show "handleKeyDown key s = (s, False)" by (simp add: handleKeyDown_def)
next
  assume "editorRef s = Some kids" "selection s = None \<or> selection s = Some []"
  then show "handleKeyDown ''Backspace'' s = (s, False)" by (auto simp: handleKeyDown_def)
next
  fix r rs
  assume "editorRef s = Some kids" "selection s = Some (r # rs)" "\<not> collapsed r"
  then show "handleKeyDown ''Backspace'' s = (s, False)" by (simp add: handleKeyDown_def)
next
  fix r rs
  assume a: "editorRef s = Some kids" "selection s = Some (r # rs)" "collapsed r" "500 \<le> now s"
  show "case spec_backspace (machine_state s) (caret_adjacent kids r \<noteq> None) (now s) of
            (st', removes, suppress) \<Rightarrow>
              (case handleKeyDown ''Backspace'' s of
                 (s', prevented) \<Rightarrow>
                   machine_state s' = st' \<and> prevented = suppress \<and>
                   (removes \<longrightarrow>
                      editorRef s' = Some (remove_at kids (the (caret_adjacent kids r))) \<and>
                      hasChanges s') \<and>
                   (\<not> removes \<longrightarrow> editorRef s' = Some kids \<and> hasChanges s' = hasChanges s))"
  proof (cases "caret_adjacent kids r")
    case None
    then show ?thesis
      using a by (simp add: handleKeyDown_collapsed[OF a(1-3)] machine_state_def)
  next
    case (Some path)
    show ?thesis
    proof (cases "lastBackspaceTime s = 0")
      case True
      then show ?thesis
        using a Some
        by (simp add: handleKeyDown_collapsed[OF a(1-3)] machine_state_def press_at_stamp_def)
    next
      case False
      then show ?thesis
        using a Some
        by (simp add: handleKeyDown_collapsed[OF a(1-3)] machine_state_def press_at_stamp_def
            state_defs)
    qed
  qed
qed

theorem double_backspace_machine_witness:
  "machine_state (fst (handleKeyDown ''Backspace'' armed_state)) = Idle \<and>
   snd (handleKeyDown ''Backspace'' armed_state) \<and>
   editorRef (fst (handleKeyDown ''Backspace'' armed_state)) = Some [TextNode ''abcd''] \<and>
   handleKeyDown ''Enter'' armed_state = (armed_state, False)"
proof -
  have m: "machine_state armed_state = ArmedAt 999900" by code_simp
  have k: "''Enter'' \<noteq> ''Backspace''" by simp
  from double_backspace_machine [of armed_state clip_doc "''Enter''"] k
  have "handleKeyDown ''Enter'' armed_state = (armed_state, False)"
    by (simp add: armed_state_facts)
  moreover from double_backspace_machine [of armed_state clip_doc "''Enter''"]
  have "machine_state (fst (handleKeyDown ''Backspace'' armed_state)) = Idle \<and>
   snd (handleKeyDown ''Backspace'' armed_state) \<and>
   editorRef (fst (handleKeyDown ''Backspace'' armed_state)) = Some [TextNode ''abcd'']"
    by (simp add: armed_state_facts m del: remove_at.simps split: prod.splits)
  ultimately show ?thesis by blast
qed

text \<open>The claim as written fails for a Backspace press on a selected range, which is not
  next to a stamp: the machine, armed at 1000000 ms, is still armed after that press at
  1000100 ms, and once the browser has deleted the selected characters a single press
  next to the stamp at 1000200 ms removes it.\<close>

theorem range_backspace_keeps_armed:
  "machine_state
     (fst (handleKeyDown ''Backspace''
        ((run_until 1000100
           (fst (handleKeyDown ''Backspace''
              (clip_state\<lparr>editorRef := Some clip_doc,
                 selection := Some [caret (InEditor [0]) 4]\<rparr>))))
         \<lparr>selection := Some [two_chars]\<rparr>)))
   = ArmedAt 1000000 \<and>
   editorRef
     (fst (handleKeyDown ''Backspace''
        ((run_until 1000200
           (handleInput clip_props
             ((fst (handleKeyDown ''Backspace''
                ((run_until 1000100
                   (fst (handleKeyDown ''Backspace''
                      (clip_state\<lparr>editorRef := Some clip_doc,
                         selection := Some [caret (InEditor [0]) 4]\<rparr>))))
                 \<lparr>selection := Some [two_chars]\<rparr>)))
              \<lparr>editorRef := Some [TextNode ''cd'', stampButton True clip_stamp ''0:00:12'']\<rparr>)))
         \<lparr>selection := Some [caret (InEditor [0]) 2]\<rparr>)))
   = Some [TextNode ''cd'']"
  by code_simp

text \<open>
  Claim C10, as amended.  The second Backspace press of the protocol removes the stamp
  node, sets the dirty flag and suppresses the default action; it leaves the stored
  records, the trace of storage writes, the pending timers and the timer reference as
  they were.  If no autosave was pending, no passage of time writes anything afterwards;
  an autosave that was pending still fires and stores the document without the stamp.
\<close>

theorem stamp_deletion_frame:
  "editorRef s = Some kids \<and> selection s = Some (r # rs) \<and> collapsed r \<and>
   caret_adjacent kids r = Some path \<and> now s - lastBackspaceTime s < 500 \<longrightarrow>
   (case handleKeyDown ''Backspace'' s of
      (s', prevented) \<Rightarrow>
        editorRef s' = Some (remove_at kids path) \<and> hasChanges s' \<and> prevented \<and>
        localStorage s' = localStorage s \<and> storageLog s' = storageLog s \<and>
        timers s' = timers s \<and> autoSaveTimeoutRef s' = autoSaveTimeoutRef s \<and>
        (only_reattach s \<longrightarrow>
           (\<forall>T. localStorage (run_until T s') = localStorage s \<and>
                storageLog (run_until T s') = storageLog s)))"
proof (intro impI)
  assume a: "editorRef s = Some kids \<and> selection s = Some (r # rs) \<and> collapsed r \<and>
   caret_adjacent kids r = Some path \<and> now s - lastBackspaceTime s < 500"
  define s' where "s' = fst (press_at_stamp path kids s)"
  have h: "handleKeyDown ''Backspace'' s = (s', True)"
    using a by (simp add: handleKeyDown_collapsed[of s kids r rs] s'_def press_at_stamp_def)
  have f: "editorRef s' = Some (remove_at kids path)" "hasChanges s'"
    "localStorage s' = localStorage s" "storageLog s' = storageLog s"
    "timers s' = timers s" "autoSaveTimeoutRef s' = autoSaveTimeoutRef s"
    using a by (simp_all add: s'_def press_at_stamp_def state_defs)
  have "only_reattach s \<Longrightarrow> localStorage (run_until T s') = localStorage s \<and>
                storageLog (run_until T s') = storageLog s" for T
    using run_until_only_reattach[of s' T] f by (simp add: only_reattach_def)
  with h f show "case handleKeyDown ''Backspace'' s of
      (s', prevented) \<Rightarrow>
        editorRef s' = Some (remove_at kids path) \<and> hasChanges s' \<and> prevented \<and>
        localStorage s' = localStorage s \<and> storageLog s' = storageLog s \<and>
        timers s' = timers s \<and> autoSaveTimeoutRef s' = autoSaveTimeoutRef s \<and>
        (only_reattach s \<longrightarrow>
           (\<forall>T. localStorage (run_until T s') = localStorage s \<and>
                storageLog (run_until T s') = storageLog s))"
    by simp
qed

theorem stamp_deletion_frame_witness:
  "editorRef (fst (handleKeyDown ''Backspace'' armed_state)) = Some [TextNode ''abcd''] \<and>
   hasChanges (fst (handleKeyDown ''Backspace'' armed_state)) \<and>
   timers (fst (handleKeyDown ''Backspace'' armed_state)) = [] \<and>
   storageLog (run_until 2000000 (fst (handleKeyDown ''Backspace'' armed_state))) = []"
proof -
  have "only_reattach armed_state" by (simp add: only_reattach_def armed_state_facts)
  moreover have "storageLog armed_state = []" by code_simp
  ultimately show ?thesis
    using stamp_deletion_frame [of armed_state clip_doc "caret (InEditor [0]) 4" "[]" "[Suc 0]"]
    by (simp add: armed_state_facts del: remove_at.simps split: prod.splits)
qed

text \<open>The claim as written fails where an autosave is pending: the user types at
  1000000 ms, presses Backspace next to the stamp at 1000300 ms and at 1000400 ms, and
  does nothing more; at 1001000 ms the autosave of the typing stores the document
  without the stamp.\<close>

theorem pending_autosave_persists_deletion:
  "localStorage
     (run_until 1001000
        (fst (handleKeyDown ''Backspace''
           (run_until 1000400
              (fst (handleKeyDown ''Backspace''
                 (run_until 1000300
                    ((typing clip_props clip_doc [] clip_state)
                       \<lparr>selection := Some [caret (InEditor [0]) 4]\<rparr>))))))))
     (storageKey ''clip.mp4'') = Some [TextNode ''abcd'']"
  by code_simp



section \<open>Claims about serialisation and export\<close>

text \<open>
  Claim C3.  A document of text runs and stamps, each stamp of one of the two kinds with
  a finite value, is saved and the page is reloaded.  In the stored markup the stamps read
  from the data attributes of the stamp buttons, in document order, are the stamps of the
  document with all four fields unchanged.  After the reload every stamp button has
  exactly one click listener, and it is bound to the stamp read from that button's own
  attributes, which is again the original stamp.
\<close>

theorem stamp_round_trip:
  "videoFilename pr = Some f \<and> f \<noteq> [] \<and>
   editorRef s = Some (map (render_segment seek) segs) \<and> list_all creatable (tokens segs) \<longrightarrow>
   map_option (\<lambda>stored. map (\<lambda>n. dataset_stamp (attributes_of n)) (all_stamps stored))
     (localStorage (saveNotes pr s) (storageKey f)) = Some (tokens segs) \<and>
   map_option
     (\<lambda>doc. map (\<lambda>n. (dataset_stamp (attributes_of n), listeners_of n)) (all_stamps doc))
     (editorRef (reload pr t (saveNotes pr s))) =
   Some (map (\<lambda>st. (st, [ClickListener (seekToTime pr) st])) (tokens segs))"
proof (intro impI)
  assume a: "videoFilename pr = Some f \<and> f \<noteq> [] \<and>
   editorRef s = Some (map (render_segment seek) segs) \<and> list_all creatable (tokens segs)"
  then have st: "localStorage (saveNotes pr s) (storageKey f) =
      Some (innerHTML (map (render_segment seek) segs))"
    by (intro saveNotes_stores) simp_all
  from a have ed: "editorRef (reload pr t (saveNotes pr s)) =
      Some (map (reattach_node (seekToTime pr))
              (innerHTML (innerHTML (map (render_segment seek) segs))))"
    by (intro reload_editor[OF _ _ st]) simp_all
  from a have c: "list_all creatable (tokens segs)" by simp
  show "map_option (\<lambda>stored. map (\<lambda>n. dataset_stamp (attributes_of n)) (all_stamps stored))
     (localStorage (saveNotes pr s) (storageKey f)) = Some (tokens segs) \<and>
   map_option
     (\<lambda>doc. map (\<lambda>n. (dataset_stamp (attributes_of n), listeners_of n)) (all_stamps doc))
     (editorRef (reload pr t (saveNotes pr s))) =
   Some (map (\<lambda>st. (st, [ClickListener (seekToTime pr) st])) (tokens segs))"
    by (simp only: st ed option.map stored_stamps[OF c] handlers_after_reload[OF c])
qed

theorem stamp_round_trip_witness:
  "map_option
     (\<lambda>doc. map (\<lambda>n. (dataset_stamp (attributes_of n), listeners_of n)) (all_stamps doc))
     (editorRef (reload clip_props 2000000
        (saveNotes clip_props
           (clip_state\<lparr>editorRef := Some (map (render_segment True) notes_doc)\<rparr>)))) =
   Some [(clip_stamp, [ClickListener True clip_stamp]),
         (frame_stamp, [ClickListener True frame_stamp])] \<and>
   seeks (click [1] (reload clip_props 2000000
        (saveNotes clip_props
           (clip_state\<lparr>editorRef := Some (map (render_segment True) notes_doc)\<rparr>)))) =
     [Num (25 / 2)] \<and>
   seeks (click [3] (reload clip_props 2000000
        (saveNotes clip_props
           (clip_state\<lparr>editorRef := Some (map (render_segment True) notes_doc)\<rparr>)))) =
     [Num 3]"
proof -
  have k1: "seeks (click [1] (reload clip_props 2000000
        (saveNotes clip_props
           (clip_state\<lparr>editorRef := Some (map (render_segment True) notes_doc)\<rparr>)))) =
     [Num (25 / 2)]" by code_simp
  have k3: "seeks (click [3] (reload clip_props 2000000
        (saveNotes clip_props
           (clip_state\<lparr>editorRef := Some (map (render_segment True) notes_doc)\<rparr>)))) =
     [Num 3]" by code_simp
  have c: "list_all creatable (tokens notes_doc)"
    by (simp add: notes_doc_def example_stamps_creatable)
  have s: "seekToTime clip_props = True" by code_simp
  have n: "''clip.mp4'' \<noteq> []" by simp
  from stamp_round_trip [of clip_props "''clip.mp4''"
      "clip_state\<lparr>editorRef := Some (map (render_segment True) notes_doc)\<rparr>" True notes_doc
      2000000] c
  have "map_option
     (\<lambda>doc. map (\<lambda>n. (dataset_stamp (attributes_of n), listeners_of n)) (all_stamps doc))
     (editorRef (reload clip_props 2000000
        (saveNotes clip_props
           (clip_state\<lparr>editorRef := Some (map (render_segment True) notes_doc)\<rparr>)))) =
   Some [(clip_stamp, [ClickListener True clip_stamp]),
         (frame_stamp, [ClickListener True frame_stamp])]"
    by (simp add: clip_state_facts s notes_doc_def)
  with k1 k3 show ?thesis by blast
qed

text \<open>For a document of text runs and stamps, the exported text is the title line, a
  blank line and the text of the runs with every stamp in its bracket form, and the file
  is named after the video without its extension.  A time stamp of value 125.4 is
  exported as \<open>[0:02:05]\<close>, a frame stamp of value 90 as \<open>[Frame 90]\<close>.\<close>

lemma export_of_runs_and_stamps:
  "(videoFilename pr = Some f \<and> f \<noteq> [] \<and>
    editorRef s = Some (map (render_segment seek) segs) \<and> list_all creatable (tokens segs) \<longrightarrow>
      downloads (exportNotes pr s) =
        downloads s @
          [(strip_extension f @ ''_notes.md'',
            ''# Notes for '' @ f @ [newline, newline] @ concat (map segment_text segs))]) \<and>
   (ext \<noteq> [] \<and> list_all (\<lambda>x. x \<noteq> CHR ''/'' \<and> x \<noteq> CHR ''.'') ext \<longrightarrow>
      strip_extension (base @ CHR ''.'' # ext) = base) \<and>
   bracket_form (st\<lparr>stampType := Some ''time'', stampValue := Num (1254 / 10)\<rparr>) = ''[0:02:05]'' \<and>
   bracket_form (st\<lparr>stampType := Some ''frame'', stampValue := Num 90\<rparr>) = ''[Frame 90]''"
proof (intro conjI impI)
  assume a: "videoFilename pr = Some f \<and> f \<noteq> [] \<and>
    editorRef s = Some (map (render_segment seek) segs) \<and> list_all creatable (tokens segs)"
  then have c: "list_all creatable (tokens segs)" by simp
  have "concat (map textContent (map export_node (innerHTML (map (render_segment seek) segs)))) =
        concat (map export_text (innerHTML (map (render_segment seek) segs)))"
    by (simp add: o_def textContent_export_node)
  also have "\<dots> = concat (map segment_text segs)"
    by (simp only: export_text_innerHTML export_text_render[OF c])
  finally have t: "concat (map textContent (map export_node (innerHTML (map (render_segment seek) segs)))) =
        concat (map segment_text segs)" .
  show "downloads (exportNotes pr s) =
        downloads s @
          [(strip_extension f @ ''_notes.md'',
            ''# Notes for '' @ f @ [newline, newline] @ concat (map segment_text segs))]"
    using a by (simp add: exportNotes_def Let_def state_defs t del: map_map)
next
  assume "ext \<noteq> [] \<and> list_all (\<lambda>x. x \<noteq> CHR ''/'' \<and> x \<noteq> CHR ''.'') ext"
  then show "strip_extension (base @ CHR ''.'' # ext) = base"
    by (intro strip_extension_ext) simp_all
next
  show "bracket_form (st\<lparr>stampType := Some ''time'', stampValue := Num (1254 / 10)\<rparr>) = ''[0:02:05]''"
    by (simp add: bracket_form_def formatTime_example)
next
  show "bracket_form (st\<lparr>stampType := Some ''frame'', stampValue := Num 90\<rparr>) = ''[Frame 90]''"
    by (simp add: bracket_form_def number_toString_90 del: number_toString.simps)
qed

lemma export_of_notes_doc:
  "downloads (exportNotes clip_props
      (clip_state\<lparr>editorRef := Some (map (render_segment True) notes_doc)\<rparr>)) =
     [(''clip_notes.md'',
       ''# Notes for clip.mp4'' @ [newline, newline] @ ''Intro at [0:00:12] and [Frame 90]'')] \<and>
   strip_extension ''clip.mp4'' = ''clip''"
proof -
  have c: "list_all creatable (tokens notes_doc)"
    by (simp add: notes_doc_def example_stamps_creatable)
  have e: "strip_extension ''clip.mp4'' = ''clip''"
    using export_of_runs_and_stamps [of clip_props "''clip.mp4''" clip_state True notes_doc "''mp4''" "''clip''" clip_stamp]
    by simp
  have d: "downloads clip_state = []" by code_simp
  have t: "concat (map segment_text notes_doc) = ''Intro at [0:00:12] and [Frame 90]''"
    by code_simp
  from export_of_runs_and_stamps [of clip_props "''clip.mp4''"
      "clip_state\<lparr>editorRef := Some (map (render_segment True) notes_doc)\<rparr>" True notes_doc
      "''mp4''" "''clip''" clip_stamp] c
  show ?thesis
    by (simp add: clip_state_facts e d t del: strip_extension.simps)
qed

text \<open>
  Claim C4.  With an active video, \<^verbatim>\<open>exportNotes\<close> offers a file named after the video
  without its extension, followed by \<open>_notes.md\<close>, whose text is \<open># Notes for\<close> and
  the video name, a blank line, then the text content of the document with every stamp
  button replaced by its export text.  This is the visible text of the document only as
  long as the document is a single line: the copy whose \<^verbatim>\<open>innerText\<close> is read is never
  attached to the page, so that a \<^verbatim>\<open>div\<close> contributes the text of its children and a
  \<^verbatim>\<open>br\<close> nothing, and the lines of the document are exported as one line.
\<close>

theorem export_joins_lines:
  "(videoFilename pr = Some f \<and> f \<noteq> [] \<and> editorRef s = Some kids \<longrightarrow>
      downloads (exportNotes pr s) =
        downloads s @
          [(strip_extension f @ ''_notes.md'',
            ''# Notes for '' @ f @ [newline, newline] @ concat (map export_text kids))]) \<and>
   (videoFilename pr = Some f \<and> f \<noteq> [] \<and>
    editorRef s = Some [TextNode l1, Element ''div'' [] [] [TextNode l2]] \<longrightarrow>
      downloads (exportNotes pr s) =
        downloads s @
          [(strip_extension f @ ''_notes.md'', ''# Notes for '' @ f @ [newline, newline] @ l1 @ l2)]) \<and>
   export_text (Element ''div'' [] ls lines) = concat (map export_text lines) \<and>
   export_text (Element ''br'' [] ls []) = []"
proof (intro conjI impI)
  assume a: "videoFilename pr = Some f \<and> f \<noteq> [] \<and> editorRef s = Some kids"
  have t: "concat (map textContent (map export_node (innerHTML kids))) =
        concat (map export_text kids)"
    by (simp add: o_def textContent_export_node export_text_innerHTML)
  show "downloads (exportNotes pr s) =
        downloads s @
          [(strip_extension f @ ''_notes.md'',
            ''# Notes for '' @ f @ [newline, newline] @ concat (map export_text kids))]"
    using a by (simp add: exportNotes_def Let_def state_defs t del: map_map)
next
  assume a: "videoFilename pr = Some f \<and> f \<noteq> [] \<and>
    editorRef s = Some [TextNode l1, Element ''div'' [] [] [TextNode l2]]"
  have t: "concat (map textContent (map export_node
             (innerHTML [TextNode l1, Element ''div'' [] [] [TextNode l2]]))) = l1 @ l2"
    by (simp add: o_def textContent_export_node export_text_innerHTML is_stamp_button_def)
  show "downloads (exportNotes pr s) =
        downloads s @
          [(strip_extension f @ ''_notes.md'', ''# Notes for '' @ f @ [newline, newline] @ l1 @ l2)]"
    using a t by (simp add: exportNotes_def Let_def state_defs is_stamp_button_def del: map_map)
next
  show "export_text (Element ''div'' [] ls lines) = concat (map export_text lines)"
    by (simp add: is_stamp_button_def)
next
  show "export_text (Element ''br'' [] ls []) = []"
    by (simp add: is_stamp_button_def)
qed

theorem export_joins_lines_witness:
  "downloads (exportNotes clip_props (clip_state\<lparr>editorRef := Some three_lines\<rparr>)) =
     [(''clip_notes.md'', ''# Notes for clip.mp4'' @ [newline, newline] @ ''line1line2line3'')]"
proof -
  have d: "downloads (clip_state\<lparr>editorRef := Some three_lines\<rparr>) = []" by code_simp
  have n: "strip_extension ''clip.mp4'' = ''clip''" by code_simp
  have t: "concat (map export_text three_lines) = ''line1line2line3''" by code_simp
  from export_joins_lines [of clip_props "''clip.mp4''"
      "clip_state\<lparr>editorRef := Some three_lines\<rparr>" three_lines "''line1''" "''line2''"]
  show ?thesis
    by (simp add: clip_state_facts d n t del: strip_extension.simps)
qed

end
